theory Spec2Isabelle
  imports Complex_Main "HOL-Library.Sublist" "HOL-Library.AList" "HOL-Library.Log_Nat"
begin

section \<open>Genetic course scheduler: data model\<close>

text \<open>
  The program is \<^verbatim>\<open>genetic_scheduler.py\<close>. Python integers are modelled by \<open>int\<close>,
  list positions produced by \<^verbatim>\<open>enumerate\<close> by \<open>nat\<close>, and the floating point fitness by
  exact rationals: every weight of the program is a multiple of \<open>1/20\<close>, and the theory
  reasons about the sums in exact arithmetic. The rounding of IEEE doubles is modelled
  apart, in the section on double precision, where the evaluator is given once more with
  the addition as a parameter. A raised Python exception is the left summand of a result.
\<close>

datatype error = IndexError | KeyError | ValueError | StopIteration

definition bind_err :: "error + 'a \<Rightarrow> ('a \<Rightarrow> error + 'b) \<Rightarrow> error + 'b" where
  "bind_err m f = (case m of Inl e \<Rightarrow> Inl e | Inr x \<Rightarrow> f x)"

text \<open>A \<^verbatim>\<open>for\<close> loop whose body may raise: the state is threaded, the first exception ends it.\<close>

fun for_each :: "('s \<Rightarrow> 'a \<Rightarrow> error + 's) \<Rightarrow> 'a list \<Rightarrow> 's \<Rightarrow> error + 's" where
  "for_each body [] s = Inr s"
| "for_each body (x # xs) s = bind_err (body s x) (for_each body xs)"

text \<open>Python list indexing: a negative index counts from the end, out of range raises.\<close>

definition py_index :: "'a list \<Rightarrow> int \<Rightarrow> error + 'a" where
  "py_index xs i =
     (if 0 \<le> i \<and> i < int (length xs) then Inr (xs ! nat i)
      else if - int (length xs) \<le> i \<and> i < 0 then Inr (xs ! nat (int (length xs) + i))
      else Inl IndexError)"

text \<open>Python \<^verbatim>\<open>d[k]\<close> on a dict: a missing key raises.\<close>

definition dict_get :: "('k \<rightharpoonup> 'v) \<Rightarrow> 'k \<Rightarrow> error + 'v" where
  "dict_get d k = (case d k of None \<Rightarrow> Inl KeyError | Some v \<Rightarrow> Inr v)"

record Activity =
  name :: string
  enrollment :: int
  preferred_facilitators :: "string list"
  other_facilitators :: "string list"

record Room =
  name :: string
  capacity :: int

text \<open>A gene is the stored tuple \<^verbatim>\<open>(activity_idx, room_idx, time_idx, facilitator_idx)\<close>.\<close>

type_synonym gene = "int \<times> int \<times> int \<times> int"

record Schedule =
  assignments :: "gene list"

definition mk_activity :: "string \<Rightarrow> int \<Rightarrow> string list \<Rightarrow> string list \<Rightarrow> Activity" where
  "mk_activity n e p otr =
     \<lparr>Activity.name = n, enrollment = e, preferred_facilitators = p, other_facilitators = otr\<rparr>"

definition ACTIVITIES :: "Activity list" where
  "ACTIVITIES =
    [mk_activity ''SLA101A'' 40 [''Glen'', ''Lock'', ''Banks''] [''Numen'', ''Richards'', ''Shaw'', ''Singer''],
     mk_activity ''SLA101B'' 35 [''Glen'', ''Lock'', ''Banks''] [''Numen'', ''Richards'', ''Shaw'', ''Singer''],
     mk_activity ''SLA191A'' 45 [''Glen'', ''Lock'', ''Banks''] [''Numen'', ''Richards'', ''Shaw'', ''Singer''],
     mk_activity ''SLA191B'' 40 [''Glen'', ''Lock'', ''Banks''] [''Numen'', ''Richards'', ''Shaw'', ''Singer''],
     mk_activity ''SLA201'' 60 [''Glen'', ''Banks'', ''Zeldin'', ''Lock'', ''Singer''] [''Richards'', ''Uther'', ''Shaw''],
     mk_activity ''SLA291'' 50 [''Glen'', ''Banks'', ''Zeldin'', ''Lock'', ''Singer''] [''Richards'', ''Uther'', ''Shaw''],
     mk_activity ''SLA303'' 25 [''Glen'', ''Zeldin''] [''Banks''],
     mk_activity ''SLA304'' 20 [''Singer'', ''Uther''] [''Richards''],
     mk_activity ''SLA394'' 15 [''Tyler'', ''Singer''] [''Richards'', ''Zeldin''],
     mk_activity ''SLA449'' 30 [''Tyler'', ''Zeldin'', ''Uther''] [''Zeldin'', ''Shaw''],
     mk_activity ''SLA451'' 90 [''Lock'', ''Banks'', ''Zeldin''] [''Tyler'', ''Singer'', ''Shaw'', ''Glen'']]"

definition ROOMS :: "Room list" where
  "ROOMS =
    [\<lparr>Room.name = ''Beach 201'', capacity = 18\<rparr>,
     \<lparr>Room.name = ''Beach 301'', capacity = 25\<rparr>,
     \<lparr>Room.name = ''Frank 119'', capacity = 95\<rparr>,
     \<lparr>Room.name = ''Loft 206'', capacity = 55\<rparr>,
     \<lparr>Room.name = ''Loft 310'', capacity = 48\<rparr>,
     \<lparr>Room.name = ''James 325'', capacity = 110\<rparr>,
     \<lparr>Room.name = ''Roman 201'', capacity = 40\<rparr>,
     \<lparr>Room.name = ''Roman 216'', capacity = 80\<rparr>,
     \<lparr>Room.name = ''Slater 003'', capacity = 32\<rparr>]"

definition TIMES :: "string list" where
  "TIMES = [''10 AM'', ''11 AM'', ''12 PM'', ''1 PM'', ''2 PM'', ''3 PM'']"

definition FACILITATORS :: "string list" where
  "FACILITATORS =
     [''Lock'', ''Glen'', ''Banks'', ''Richards'', ''Shaw'', ''Singer'', ''Uther'', ''Tyler'',
      ''Numen'', ''Zeldin'']"

section \<open>The lookup structures of the fitness evaluator\<close>

text \<open>
  Both evaluators start with the same loop over \<^verbatim>\<open>enumerate(schedule.assignments)\<close> that
  fills four dicts. Only \<^verbatim>\<open>facilitator_time_slots\<close> is iterated afterwards, so it is an
  association list in insertion order; the other three are maps.
\<close>

record lookups =
  time_room_activities :: "(int \<times> int) \<rightharpoonup> nat list"
  time_facilitator_activities :: "(int \<times> int) \<rightharpoonup> nat list"
  facilitator_total_activities :: "int \<rightharpoonup> int"
  facilitator_time_slots :: "(int \<times> int list) list"

definition empty_lookups :: lookups where
  "empty_lookups =
     \<lparr>time_room_activities = Map.empty, time_facilitator_activities = Map.empty,
      facilitator_total_activities = Map.empty, facilitator_time_slots = []\<rparr>"

definition append_at :: "('k \<rightharpoonup> nat list) \<Rightarrow> 'k \<Rightarrow> nat \<Rightarrow> ('k \<rightharpoonup> nat list)" where
  "append_at d key activity_idx =
     d(key \<mapsto> (case d key of None \<Rightarrow> [] | Some l \<Rightarrow> l) @ [activity_idx])"

definition add_time_slot :: "(int \<times> int list) list \<Rightarrow> int \<Rightarrow> int \<Rightarrow> (int \<times> int list) list" where
  "add_time_slot d facilitator_idx time_idx =
     (let d1 = (if map_of d facilitator_idx = None then AList.update facilitator_idx [] d else d);
          slots = (case map_of d1 facilitator_idx of None \<Rightarrow> [] | Some l \<Rightarrow> l)
      in if time_idx \<notin> set slots then AList.update facilitator_idx (slots @ [time_idx]) d1 else d1)"

definition build_step :: "lookups \<Rightarrow> nat \<times> gene \<Rightarrow> lookups" where
  "build_step L x =
     (case x of (activity_idx, (_, room_idx, time_idx, facilitator_idx)) \<Rightarrow>
        \<lparr>time_room_activities = append_at (time_room_activities L) (time_idx, room_idx) activity_idx,
         time_facilitator_activities =
           append_at (time_facilitator_activities L) (time_idx, facilitator_idx) activity_idx,
         facilitator_total_activities =
           (facilitator_total_activities L)(facilitator_idx \<mapsto>
              (case facilitator_total_activities L facilitator_idx of None \<Rightarrow> 0 | Some c \<Rightarrow> c) + 1),
         facilitator_time_slots = add_time_slot (facilitator_time_slots L) facilitator_idx time_idx\<rparr>)"

definition build_lookups :: "Schedule \<Rightarrow> lookups" where
  "build_lookups schedule = foldl build_step empty_lookups (enumerate 0 (assignments schedule))"

section \<open>calculate_fitness\<close>

definition in_roman_beach :: "string \<Rightarrow> bool" where
  "in_roman_beach room_name = (prefix ''Roman'' room_name \<or> prefix ''Beach'' room_name)"

text \<open>The five per-activity rules, each in the order and with the tests of the source.\<close>

definition room_conflict :: "nat \<Rightarrow> rat \<Rightarrow> rat" where
  "room_conflict n_in_room fitness = (if n_in_room > 1 then fitness - 1/2 else fitness)"

definition room_size :: "Activity \<Rightarrow> Room \<Rightarrow> rat \<Rightarrow> rat" where
  "room_size activity room fitness =
     (if enrollment activity > capacity room then fitness - 1/2
      else if of_int (capacity room) > (3::rat) * of_int (enrollment activity) then fitness - 2/5
      else if of_int (capacity room) > (3/2::rat) * of_int (enrollment activity) then fitness - 1/5
      else fitness + 3/10)"

definition facilitator_preference :: "Activity \<Rightarrow> string \<Rightarrow> rat \<Rightarrow> rat" where
  "facilitator_preference activity facilitator fitness =
     (if facilitator \<in> set (preferred_facilitators activity) then fitness + 1/2
      else if facilitator \<in> set (other_facilitators activity) then fitness + 1/5
      else fitness - 1/10)"

definition facilitator_load :: "nat \<Rightarrow> rat \<Rightarrow> rat" where
  "facilitator_load n_in_slot fitness =
     (if n_in_slot = 1 then fitness + 1/5
      else if n_in_slot > 1 then fitness - 1/5
      else fitness)"

definition facilitator_total_load :: "string \<Rightarrow> int \<Rightarrow> rat \<Rightarrow> rat" where
  "facilitator_total_load facilitator total_load fitness =
     (if total_load > 4 then fitness - 1/2
      else if total_load < 3 then
        (if facilitator \<noteq> ''Tyler'' \<or> total_load \<ge> 2 then fitness - 2/5 else fitness)
      else fitness)"

definition evaluate_activity :: "lookups \<Rightarrow> rat \<Rightarrow> nat \<times> gene \<Rightarrow> error + rat" where
  "evaluate_activity L fitness x =
     (case x of (activity_idx, (_, room_idx, time_idx, facilitator_idx)) \<Rightarrow>
        bind_err (py_index ACTIVITIES (int activity_idx)) (\<lambda>activity.
        bind_err (py_index ROOMS room_idx) (\<lambda>room.
        bind_err (py_index FACILITATORS facilitator_idx) (\<lambda>facilitator.
        bind_err (dict_get (time_room_activities L) (time_idx, room_idx)) (\<lambda>in_room.
        bind_err (dict_get (time_facilitator_activities L) (time_idx, facilitator_idx)) (\<lambda>in_slot.
        bind_err (dict_get (facilitator_total_activities L) facilitator_idx) (\<lambda>total_load.
          Inr (facilitator_total_load facilitator total_load
                (facilitator_load (length in_slot)
                  (facilitator_preference activity facilitator
                    (room_size activity room
                      (room_conflict (length in_room) fitness))))))))))))"

text \<open>
  The list comprehension
  \<^verbatim>\<open>[act_idx for act_idx, (_, r, t, f) in enumerate(assignments) if t == time and f == fac]\<close>.
\<close>

definition activities_at :: "Schedule \<Rightarrow> int \<Rightarrow> int \<Rightarrow> nat list" where
  "activities_at schedule time facilitator_idx =
     map fst (filter (\<lambda>(act_idx, (_, r, t, f)). t = time \<and> f = facilitator_idx)
                (enumerate 0 (assignments schedule)))"

text \<open>\<^verbatim>\<open>schedule.assignments[act_idx][1]\<close>: the room index of a stored tuple.\<close>

definition room_of :: "Schedule \<Rightarrow> int \<Rightarrow> error + int" where
  "room_of schedule act_idx =
     bind_err (py_index (assignments schedule) act_idx) (\<lambda>(_, r, t, f). Inr r)"

definition time_of :: "Schedule \<Rightarrow> int \<Rightarrow> error + int" where
  "time_of schedule act_idx =
     bind_err (py_index (assignments schedule) act_idx) (\<lambda>(_, r, t, f). Inr t)"

definition room_name :: "int \<Rightarrow> error + string" where
  "room_name room_idx = bind_err (py_index ROOMS room_idx) (\<lambda>room. Inr (Room.name room))"

definition building_pair :: "Schedule \<Rightarrow> rat \<Rightarrow> nat \<times> nat \<Rightarrow> error + rat" where
  "building_pair schedule fitness p =
     (case p of (act1_idx, act2_idx) \<Rightarrow>
        bind_err (room_of schedule (int act1_idx)) (\<lambda>room1_idx.
        bind_err (room_of schedule (int act2_idx)) (\<lambda>room2_idx.
        bind_err (room_name room1_idx) (\<lambda>room1_name.
        bind_err (room_name room2_idx) (\<lambda>room2_name.
          Inr (if in_roman_beach room1_name \<noteq> in_roman_beach room2_name
               then fitness - 2/5 else fitness))))))"

definition consecutive_slot :: "Schedule \<Rightarrow> int \<Rightarrow> int list \<Rightarrow> rat \<Rightarrow> nat \<Rightarrow> error + rat" where
  "consecutive_slot schedule facilitator_idx sorted_times fitness i =
     (if sorted_times ! (i + 1) - sorted_times ! i = 1 then
        (let time1 = sorted_times ! i;
             time2 = sorted_times ! (i + 1);
             activities_at_time1 = activities_at schedule time1 facilitator_idx;
             activities_at_time2 = activities_at schedule time2 facilitator_idx
         in for_each (building_pair schedule)
              (List.product activities_at_time1 activities_at_time2) (fitness + 1/2))
      else Inr fitness)"

definition consecutive_facilitator :: "Schedule \<Rightarrow> rat \<Rightarrow> int \<times> int list \<Rightarrow> error + rat" where
  "consecutive_facilitator schedule fitness item =
     (case item of (facilitator_idx, time_slots) \<Rightarrow>
        (let sorted_times = sort time_slots
         in for_each (consecutive_slot schedule facilitator_idx sorted_times)
              [0 ..< length sorted_times - 1] fitness))"

text \<open>\<^verbatim>\<open>next(i for i, a in enumerate(ACTIVITIES) if a.name == nm)\<close>.\<close>

definition activity_named :: "string \<Rightarrow> error + int" where
  "activity_named nm =
     (case filter (\<lambda>(i, a). Activity.name a = nm) (enumerate 0 ACTIVITIES) of
        [] \<Rightarrow> Inl StopIteration
      | (i, a) # _ \<Rightarrow> Inr (int i))"

definition sections_spacing :: "int \<Rightarrow> int \<Rightarrow> rat \<Rightarrow> rat" where
  "sections_spacing time_a time_b fitness =
     (let fitness = (if \<bar>time_a - time_b\<bar> > 4 then fitness + 1/2 else fitness)
      in if time_a = time_b then fitness - 1/2 else fitness)"

definition sla_pair :: "rat \<Rightarrow> (int \<times> int) \<times> (int \<times> int) \<Rightarrow> error + rat" where
  "sla_pair fitness p =
     (case p of ((sla191_time, sla191_room), (sla101_time, sla101_room)) \<Rightarrow>
        (let time_diff = \<bar>sla191_time - sla101_time\<bar>
         in if time_diff = 1 then
              bind_err (room_name sla191_room) (\<lambda>sla191_room_name.
              bind_err (room_name sla101_room) (\<lambda>sla101_room_name.
                Inr (if in_roman_beach sla191_room_name \<noteq> in_roman_beach sla101_room_name
                     then fitness + 1/2 - 2/5 else fitness + 1/2)))
            else if time_diff = 2 then Inr (fitness + 1/4)
            else if time_diff = 0 then Inr (fitness - 1/4)
            else Inr fitness))"

definition activity_specific :: "Schedule \<Rightarrow> rat \<Rightarrow> error + rat" where
  "activity_specific schedule fitness =
     bind_err (activity_named ''SLA101A'') (\<lambda>sla101a_idx.
     bind_err (activity_named ''SLA101B'') (\<lambda>sla101b_idx.
     bind_err (activity_named ''SLA191A'') (\<lambda>sla191a_idx.
     bind_err (activity_named ''SLA191B'') (\<lambda>sla191b_idx.
     bind_err (time_of schedule sla101a_idx) (\<lambda>time_101a.
     bind_err (time_of schedule sla101b_idx) (\<lambda>time_101b.
     bind_err (time_of schedule sla191a_idx) (\<lambda>time_191a.
     bind_err (time_of schedule sla191b_idx) (\<lambda>time_191b.
     bind_err (room_of schedule sla101a_idx) (\<lambda>room_101a.
     bind_err (room_of schedule sla101b_idx) (\<lambda>room_101b.
     bind_err (room_of schedule sla191a_idx) (\<lambda>room_191a.
     bind_err (room_of schedule sla191b_idx) (\<lambda>room_191b.
       for_each sla_pair
         (List.product [(time_191a, room_191a), (time_191b, room_191b)]
                       [(time_101a, room_101a), (time_101b, room_101b)])
         (sections_spacing time_191a time_191b
           (sections_spacing time_101a time_101b fitness))))))))))))))"

definition calculate_fitness :: "Schedule \<Rightarrow> error + rat" where
  "calculate_fitness schedule =
     (let L = build_lookups schedule
      in bind_err (for_each (evaluate_activity L) (enumerate 0 (assignments schedule)) 0) (\<lambda>fitness.
         bind_err (for_each (consecutive_facilitator schedule) (facilitator_time_slots L) fitness)
           (activity_specific schedule)))"

section \<open>get_constraint_violations\<close>

text \<open>
  The keys of the dict that \<^verbatim>\<open>get_constraint_violations\<close> returns. The dict is created with
  all twenty-two keys at 0 and no key is added or removed, so it is a total function on the keys.
\<close>

datatype vkey =
    room_conflicts | room_too_small | room_too_large_1_5x | room_too_large_3x | room_good_fit
  | facilitator_preferred | facilitator_other | facilitator_unlisted
  | facilitator_single_slot | facilitator_double_booked
  | facilitator_overload_4plus | facilitator_underload_less3
  | facilitator_consecutive_bonus | facilitator_consecutive_building_penalty
  | sla101_sections_far_apart | sla101_sections_same_time
  | sla191_sections_far_apart | sla191_sections_same_time
  | sla101_191_consecutive | sla101_191_consecutive_building_penalty
  | sla101_191_separated_1hr | sla101_191_same_time

type_synonym violations = "vkey \<Rightarrow> int"

text \<open>\<^verbatim>\<open>violations[k] += 1\<close>.\<close>

definition incr :: "vkey \<Rightarrow> violations \<Rightarrow> violations" where
  "incr k violations = violations(k := violations k + 1)"

definition count_room_conflict :: "nat \<Rightarrow> violations \<Rightarrow> violations" where
  "count_room_conflict n_in_room violations =
     (if n_in_room > 1 then incr room_conflicts violations else violations)"

definition count_room_size :: "Activity \<Rightarrow> Room \<Rightarrow> violations \<Rightarrow> violations" where
  "count_room_size activity room violations =
     (if enrollment activity > capacity room then incr room_too_small violations
      else if of_int (capacity room) > (3::rat) * of_int (enrollment activity)
        then incr room_too_large_3x violations
      else if of_int (capacity room) > (3/2::rat) * of_int (enrollment activity)
        then incr room_too_large_1_5x violations
      else incr room_good_fit violations)"

definition count_facilitator_preference :: "Activity \<Rightarrow> string \<Rightarrow> violations \<Rightarrow> violations" where
  "count_facilitator_preference activity facilitator violations =
     (if facilitator \<in> set (preferred_facilitators activity) then incr facilitator_preferred violations
      else if facilitator \<in> set (other_facilitators activity) then incr facilitator_other violations
      else incr facilitator_unlisted violations)"

definition count_facilitator_load :: "nat \<Rightarrow> violations \<Rightarrow> violations" where
  "count_facilitator_load n_in_slot violations =
     (if n_in_slot = 1 then incr facilitator_single_slot violations
      else if n_in_slot > 1 then incr facilitator_double_booked violations
      else violations)"

definition count_facilitator_total_load :: "string \<Rightarrow> int \<Rightarrow> violations \<Rightarrow> violations" where
  "count_facilitator_total_load facilitator total_load violations =
     (if total_load > 4 then incr facilitator_overload_4plus violations
      else if total_load < 3 then
        (if facilitator \<noteq> ''Tyler'' \<or> total_load \<ge> 2
         then incr facilitator_underload_less3 violations else violations)
      else violations)"

definition count_activity :: "lookups \<Rightarrow> violations \<Rightarrow> nat \<times> gene \<Rightarrow> error + violations" where
  "count_activity L violations x =
     (case x of (activity_idx, (_, room_idx, time_idx, facilitator_idx)) \<Rightarrow>
        bind_err (py_index ACTIVITIES (int activity_idx)) (\<lambda>activity.
        bind_err (py_index ROOMS room_idx) (\<lambda>room.
        bind_err (py_index FACILITATORS facilitator_idx) (\<lambda>facilitator.
        bind_err (dict_get (time_room_activities L) (time_idx, room_idx)) (\<lambda>in_room.
        bind_err (dict_get (time_facilitator_activities L) (time_idx, facilitator_idx)) (\<lambda>in_slot.
        bind_err (dict_get (facilitator_total_activities L) facilitator_idx) (\<lambda>total_load.
          Inr (count_facilitator_total_load facilitator total_load
                (count_facilitator_load (length in_slot)
                  (count_facilitator_preference activity facilitator
                    (count_room_size activity room
                      (count_room_conflict (length in_room) violations))))))))))))"

definition count_building_pair :: "Schedule \<Rightarrow> violations \<Rightarrow> nat \<times> nat \<Rightarrow> error + violations" where
  "count_building_pair schedule violations p =
     (case p of (act1_idx, act2_idx) \<Rightarrow>
        bind_err (room_of schedule (int act1_idx)) (\<lambda>room1_idx.
        bind_err (room_of schedule (int act2_idx)) (\<lambda>room2_idx.
        bind_err (room_name room1_idx) (\<lambda>room1_name.
        bind_err (room_name room2_idx) (\<lambda>room2_name.
          Inr (if in_roman_beach room1_name \<noteq> in_roman_beach room2_name
               then incr facilitator_consecutive_building_penalty violations
               else violations))))))"

definition count_consecutive_slot ::
    "Schedule \<Rightarrow> int \<Rightarrow> int list \<Rightarrow> violations \<Rightarrow> nat \<Rightarrow> error + violations" where
  "count_consecutive_slot schedule facilitator_idx sorted_times violations i =
     (if sorted_times ! (i + 1) - sorted_times ! i = 1 then
        (let violations = incr facilitator_consecutive_bonus violations;
             time1 = sorted_times ! i;
             time2 = sorted_times ! (i + 1);
             activities_at_time1 = activities_at schedule time1 facilitator_idx;
             activities_at_time2 = activities_at schedule time2 facilitator_idx
         in for_each (count_building_pair schedule)
              (List.product activities_at_time1 activities_at_time2) violations)
      else Inr violations)"

definition count_consecutive_facilitator ::
    "Schedule \<Rightarrow> violations \<Rightarrow> int \<times> int list \<Rightarrow> error + violations" where
  "count_consecutive_facilitator schedule violations item =
     (case item of (facilitator_idx, time_slots) \<Rightarrow>
        (let sorted_times = sort time_slots
         in for_each (count_consecutive_slot schedule facilitator_idx sorted_times)
              [0 ..< length sorted_times - 1] violations))"

definition count_sections_spacing :: "vkey \<Rightarrow> vkey \<Rightarrow> int \<Rightarrow> int \<Rightarrow> violations \<Rightarrow> violations" where
  "count_sections_spacing far_apart same_time time_a time_b violations =
     (let violations = (if \<bar>time_a - time_b\<bar> > 4 then incr far_apart violations else violations)
      in if time_a = time_b then incr same_time violations else violations)"

definition count_sla_pair :: "violations \<Rightarrow> (int \<times> int) \<times> (int \<times> int) \<Rightarrow> error + violations" where
  "count_sla_pair violations p =
     (case p of ((sla191_time, sla191_room), (sla101_time, sla101_room)) \<Rightarrow>
        (let time_diff = \<bar>sla191_time - sla101_time\<bar>
         in if time_diff = 1 then
              bind_err (room_name sla191_room) (\<lambda>sla191_room_name.
              bind_err (room_name sla101_room) (\<lambda>sla101_room_name.
                Inr (if in_roman_beach sla191_room_name \<noteq> in_roman_beach sla101_room_name
                     then incr sla101_191_consecutive_building_penalty
                            (incr sla101_191_consecutive violations)
                     else incr sla101_191_consecutive violations)))
            else if time_diff = 2 then Inr (incr sla101_191_separated_1hr violations)
            else if time_diff = 0 then Inr (incr sla101_191_same_time violations)
            else Inr violations))"

definition count_activity_specific :: "Schedule \<Rightarrow> violations \<Rightarrow> error + violations" where
  "count_activity_specific schedule violations =
     bind_err (activity_named ''SLA101A'') (\<lambda>sla101a_idx.
     bind_err (activity_named ''SLA101B'') (\<lambda>sla101b_idx.
     bind_err (activity_named ''SLA191A'') (\<lambda>sla191a_idx.
     bind_err (activity_named ''SLA191B'') (\<lambda>sla191b_idx.
     bind_err (time_of schedule sla101a_idx) (\<lambda>time_101a.
     bind_err (time_of schedule sla101b_idx) (\<lambda>time_101b.
     bind_err (time_of schedule sla191a_idx) (\<lambda>time_191a.
     bind_err (time_of schedule sla191b_idx) (\<lambda>time_191b.
     bind_err (room_of schedule sla101a_idx) (\<lambda>room_101a.
     bind_err (room_of schedule sla101b_idx) (\<lambda>room_101b.
     bind_err (room_of schedule sla191a_idx) (\<lambda>room_191a.
     bind_err (room_of schedule sla191b_idx) (\<lambda>room_191b.
       for_each count_sla_pair
         (List.product [(time_191a, room_191a), (time_191b, room_191b)]
                       [(time_101a, room_101a), (time_101b, room_101b)])
         (count_sections_spacing sla191_sections_far_apart sla191_sections_same_time
            time_191a time_191b
           (count_sections_spacing sla101_sections_far_apart sla101_sections_same_time
              time_101a time_101b violations))))))))))))))"

definition get_constraint_violations :: "Schedule \<Rightarrow> error + violations" where
  "get_constraint_violations schedule =
     (let L = build_lookups schedule
      in bind_err (for_each (count_activity L) (enumerate 0 (assignments schedule)) (\<lambda>k. 0))
           (\<lambda>violations.
         bind_err (for_each (count_consecutive_facilitator schedule) (facilitator_time_slots L)
                     violations)
           (count_activity_specific schedule)))"

text \<open>
  The linear combination of the counts with the weights of the rules, as the specification
  of the fitness evaluator states it.
\<close>

definition weighted_sum :: "violations \<Rightarrow> rat" where
  "weighted_sum v =
     - (1/2) * of_int (v room_conflicts) - (1/2) * of_int (v room_too_small)
     - (2/5) * of_int (v room_too_large_3x) - (1/5) * of_int (v room_too_large_1_5x)
     + (3/10) * of_int (v room_good_fit) + (1/2) * of_int (v facilitator_preferred)
     + (1/5) * of_int (v facilitator_other) - (1/10) * of_int (v facilitator_unlisted)
     + (1/5) * of_int (v facilitator_single_slot) - (1/5) * of_int (v facilitator_double_booked)
     - (1/2) * of_int (v facilitator_overload_4plus)
     - (2/5) * of_int (v facilitator_underload_less3)
     + (1/2) * of_int (v facilitator_consecutive_bonus)
     - (2/5) * of_int (v facilitator_consecutive_building_penalty)
     + (1/2) * of_int (v sla101_sections_far_apart) - (1/2) * of_int (v sla101_sections_same_time)
     + (1/2) * of_int (v sla191_sections_far_apart) - (1/2) * of_int (v sla191_sections_same_time)
     + (1/2) * of_int (v sla101_191_consecutive)
     - (2/5) * of_int (v sla101_191_consecutive_building_penalty)
     + (1/4) * of_int (v sla101_191_separated_1hr) - (1/4) * of_int (v sla101_191_same_time)"

section \<open>Auxiliary notions for the claims\<close>

text \<open>The facilitator index of a stored tuple, and how many activities a facilitator has.\<close>

definition facilitator_of :: "gene \<Rightarrow> int" where
  "facilitator_of g = (case g of (_, r, t, f) \<Rightarrow> f)"

definition activity_count :: "Schedule \<Rightarrow> int \<Rightarrow> int" where
  "activity_count schedule facilitator_idx =
     int (length (filter (\<lambda>g. facilitator_of g = facilitator_idx) (assignments schedule)))"

definition tyler_twice :: Schedule where
  "tyler_twice = \<lparr>assignments =
     [(0,0,0,7), (1,1,1,7), (2,2,2,0), (3,3,3,0), (4,4,4,0), (5,5,5,1),
      (6,6,0,1), (7,7,1,1), (8,8,2,2), (9,0,3,2), (10,1,4,2)]\<rparr>"

definition tyler_once :: Schedule where
  "tyler_once = \<lparr>assignments =
     [(0,0,0,7), (1,1,1,0), (2,2,2,0), (3,3,3,0), (4,4,4,0), (5,5,5,1),
      (6,6,0,1), (7,7,1,1), (8,8,2,2), (9,0,3,2), (10,1,4,2)]\<rparr>"

text \<open>Overwriting the stored first component of every tuple.\<close>

definition forget_first :: "gene \<Rightarrow> gene" where
  "forget_first g = (0, snd g)"

definition forget_activity_idx :: "Schedule \<Rightarrow> Schedule" where
  "forget_activity_idx schedule = \<lparr>assignments = map forget_first (assignments schedule)\<rparr>"

text \<open>Two schedules with the same rooms, times and facilitators and other first components.\<close>

definition relabelled :: Schedule where
  "relabelled = \<lparr>assignments =
     [(5,0,0,7), (5,1,1,7), (-1,2,2,0), (3,3,3,0), (99,4,4,0), (5,5,5,1),
      (6,6,0,1), (0,7,1,1), (0,8,2,2), (0,0,3,2), (0,1,4,2)]\<rparr>"

section \<open>The random generator\<close>

text \<open>
  The module-level \<^verbatim>\<open>rng = np.random.Generator(np.random.PCG64())\<close> is modelled as explicit
  state: an arbitrary infinite sequence of raw draws, of which every call consumes a prefix.
  The three numpy calls the program makes are modelled by their documented contracts, and
  every theorem about them holds for every sequence of draws.
\<close>

type_synonym rng = "nat \<Rightarrow> nat"

definition rng_tail :: "rng \<Rightarrow> rng" where
  "rng_tail g = (\<lambda>n. g (Suc n))"

text \<open>\<^verbatim>\<open>rng.integers(low, high)\<close>: an integer of \<open>[low, high)\<close>; an empty range raises.\<close>

definition rng_integers :: "int \<Rightarrow> int \<Rightarrow> rng \<Rightarrow> error + (int \<times> rng)" where
  "rng_integers low high g =
     (if high \<le> low then Inl ValueError
      else Inr (low + int (g 0 mod nat (high - low)), rng_tail g))"

text \<open>\<^verbatim>\<open>rng.random()\<close>: a double of \<open>[0, 1)\<close> with 53 random bits.\<close>

definition rng_random :: "rng \<Rightarrow> rat \<times> rng" where
  "rng_random g = (of_nat (g 0 mod 2 ^ 53) / 2 ^ 53, rng_tail g)"

text \<open>
  \<^verbatim>\<open>rng.choice(n, size=k, replace=False)\<close>: \<open>k\<close> distinct elements of \<open>range(n)\<close>, drawn one
  after the other from those that remain; a sample larger than the population raises.
\<close>

fun draw_distinct :: "nat list \<Rightarrow> nat \<Rightarrow> rng \<Rightarrow> nat list \<times> rng" where
  "draw_distinct pool 0 g = ([], g)"
| "draw_distinct pool (Suc k) g =
     (if pool = [] then ([], g)
      else (let x = pool ! (g 0 mod length pool);
                (rest, g') = draw_distinct (remove1 x pool) k (rng_tail g)
            in (x # rest, g')))"

definition rng_choice :: "nat \<Rightarrow> nat \<Rightarrow> rng \<Rightarrow> error + (nat list \<times> rng)" where
  "rng_choice n k g =
     (if k > n then Inl ValueError else Inr (draw_distinct [0 ..< n] k g))"

section \<open>Chromosomes and the population operators\<close>

text \<open>\<^verbatim>\<open>xs[i] = v\<close> on a list, for an index that \<^verbatim>\<open>range\<close> produced.\<close>

definition py_set :: "'a list \<Rightarrow> nat \<Rightarrow> 'a \<Rightarrow> error + 'a list" where
  "py_set xs i v = (if i < length xs then Inr (xs[i := v]) else Inl IndexError)"

definition random_assignment :: "gene list \<times> rng \<Rightarrow> nat \<Rightarrow> error + (gene list \<times> rng)" where
  "random_assignment st i =
     (case st of (genes, g) \<Rightarrow>
        bind_err (rng_integers 0 (int (length ROOMS)) g) (\<lambda>(room_idx, g).
        bind_err (rng_integers 0 (int (length TIMES)) g) (\<lambda>(time_idx, g).
        bind_err (rng_integers 0 (int (length FACILITATORS)) g) (\<lambda>(facilitator_idx, g).
        bind_err (py_set genes i (int i, room_idx, time_idx, facilitator_idx))
          (\<lambda>genes. Inr (genes, g))))))"

definition create_random_schedule :: "rng \<Rightarrow> error + (Schedule \<times> rng)" where
  "create_random_schedule g =
     bind_err (for_each random_assignment [0 ..< length ACTIVITIES]
                 (replicate (length ACTIVITIES) (0, 0, 0, 0), g))
       (\<lambda>(genes, g). Inr (\<lparr>assignments = genes\<rparr>, g))"

text \<open>The three branches of \<^verbatim>\<open>mutate\<close> that resample one field of a gene.\<close>

definition resample_field :: "int \<Rightarrow> gene \<Rightarrow> rng \<Rightarrow> error + (gene \<times> rng)" where
  "resample_field mutation_type gene g =
     (case gene of (activity_idx, room_idx, time_idx, facilitator_idx) \<Rightarrow>
        if mutation_type = 0 then
          bind_err (rng_integers 0 (int (length ROOMS)) g) (\<lambda>(room_idx, g).
            Inr ((activity_idx, room_idx, time_idx, facilitator_idx), g))
        else if mutation_type = 1 then
          bind_err (rng_integers 0 (int (length TIMES)) g) (\<lambda>(time_idx, g).
            Inr ((activity_idx, room_idx, time_idx, facilitator_idx), g))
        else
          bind_err (rng_integers 0 (int (length FACILITATORS)) g) (\<lambda>(facilitator_idx, g).
            Inr ((activity_idx, room_idx, time_idx, facilitator_idx), g)))"

definition mutate_gene :: "rat \<Rightarrow> gene list \<times> rng \<Rightarrow> nat \<Rightarrow> error + (gene list \<times> rng)" where
  "mutate_gene mutation_rate st i =
     (case st of (genes, g) \<Rightarrow>
        (case rng_random g of (u, g) \<Rightarrow>
           if u < mutation_rate then
             bind_err (rng_integers 0 3 g) (\<lambda>(mutation_type, g).
             bind_err (py_index genes (int i)) (\<lambda>gene.
             bind_err (resample_field mutation_type gene g) (\<lambda>(gene, g).
             bind_err (py_set genes i gene) (\<lambda>genes. Inr (genes, g)))))
           else Inr (genes, g)))"

definition mutate :: "Schedule \<Rightarrow> rat \<Rightarrow> rng \<Rightarrow> error + (Schedule \<times> rng)" where
  "mutate schedule mutation_rate g =
     bind_err (for_each (mutate_gene mutation_rate) [0 ..< length (assignments schedule)]
                 (assignments schedule, g))
       (\<lambda>(genes, g). Inr (\<lparr>assignments = genes\<rparr>, g))"

text \<open>
  The module constants of the section "Genetic Algorithm Parameters". The claims vary them,
  so the operators and the engine take them as a record; \<open>default_config\<close> has the values of
  the source.
\<close>

record config =
  POPULATION_SIZE :: nat
  INITIAL_MUTATION_RATE :: rat
  MIN_GENERATIONS :: nat
  IMPROVEMENT_THRESHOLD :: rat
  TOURNAMENT_SIZE :: nat

definition default_config :: config where
  "default_config =
     \<lparr>POPULATION_SIZE = 500, INITIAL_MUTATION_RATE = 1/100, MIN_GENERATIONS = 100,
      IMPROVEMENT_THRESHOLD = 1/100, TOURNAMENT_SIZE = 5\<rparr>"

text \<open>
  \<^verbatim>\<open>max(tournament_indices, key=lambda i: fitness_scores[i])\<close>: the first index whose score is
  the largest; an empty sequence raises, and so does a score that is not there.
\<close>

fun max_from :: "rat list \<Rightarrow> nat \<times> rat \<Rightarrow> nat list \<Rightarrow> error + nat" where
  "max_from fitness_scores (best, best_key) [] = Inr best"
| "max_from fitness_scores (best, best_key) (i # rest) =
     bind_err (py_index fitness_scores (int i)) (\<lambda>key.
       max_from fitness_scores (if key > best_key then (i, key) else (best, best_key)) rest)"

definition max_by_score :: "rat list \<Rightarrow> nat list \<Rightarrow> error + nat" where
  "max_by_score fitness_scores indices =
     (case indices of
        [] \<Rightarrow> Inl ValueError
      | i # rest \<Rightarrow>
          bind_err (py_index fitness_scores (int i)) (\<lambda>key. max_from fitness_scores (i, key) rest))"

definition tournament_selection ::
    "config \<Rightarrow> Schedule list \<Rightarrow> rat list \<Rightarrow> rng \<Rightarrow> error + (Schedule \<times> rng)" where
  "tournament_selection cfg population fitness_scores g =
     bind_err (rng_choice (length population) (TOURNAMENT_SIZE cfg) g) (\<lambda>(tournament_indices, g).
     bind_err (max_by_score fitness_scores tournament_indices) (\<lambda>best_idx.
     bind_err (py_index population (int best_idx)) (\<lambda>best. Inr (best, g))))"

text \<open>
  The two slices of \<^verbatim>\<open>crossover\<close> at a given point, and \<^verbatim>\<open>crossover\<close>, which draws the
  point from \<open>[1, len(ACTIVITIES))\<close>. The point is positive, so \<^verbatim>\<open>xs[:k]\<close> and \<^verbatim>\<open>xs[k:]\<close>
  are \<open>take\<close> and \<open>drop\<close>.
\<close>

definition crossover_at :: "nat \<Rightarrow> Schedule \<Rightarrow> Schedule \<Rightarrow> Schedule \<times> Schedule" where
  "crossover_at crossover_point parent1 parent2 =
     (\<lparr>assignments = take crossover_point (assignments parent1) @
                      drop crossover_point (assignments parent2)\<rparr>,
      \<lparr>assignments = take crossover_point (assignments parent2) @
                      drop crossover_point (assignments parent1)\<rparr>)"

definition crossover ::
    "Schedule \<Rightarrow> Schedule \<Rightarrow> rng \<Rightarrow> error + ((Schedule \<times> Schedule) \<times> rng)" where
  "crossover parent1 parent2 g =
     bind_err (rng_integers 1 (int (length ACTIVITIES)) g) (\<lambda>(crossover_point, g).
       Inr (crossover_at (nat crossover_point) parent1 parent2, g))"

text \<open>The invariant of a chromosome: one gene per activity, every index inside its catalog.\<close>

definition gene_in_bounds :: "gene \<Rightarrow> bool" where
  "gene_in_bounds gene =
     (case gene of (activity_idx, room_idx, time_idx, facilitator_idx) \<Rightarrow>
        0 \<le> room_idx \<and> room_idx < int (length ROOMS) \<and>
        0 \<le> time_idx \<and> time_idx < int (length TIMES) \<and>
        0 \<le> facilitator_idx \<and> facilitator_idx < int (length FACILITATORS))"

definition well_formed :: "Schedule \<Rightarrow> bool" where
  "well_formed schedule =
     (length (assignments schedule) = length ACTIVITIES \<and>
      list_all gene_in_bounds (assignments schedule))"

text \<open>The same invariant on the state of the loops that fill a chromosome.\<close>

definition genes_ok :: "gene list \<times> rng \<Rightarrow> bool" where
  "genes_ok st = (length (fst st) = length ACTIVITIES \<and> list_all gene_in_bounds (fst st))"


text \<open>A small configuration and population, for concrete runs.\<close>

definition small_config :: config where
  "small_config = \<lparr>POPULATION_SIZE = 4, INITIAL_MUTATION_RATE = 1/100, MIN_GENERATIONS = 1,
      IMPROVEMENT_THRESHOLD = 1/100, TOURNAMENT_SIZE = 2\<rparr>"

definition four_schedules :: "Schedule list" where
  "four_schedules = [tyler_twice, tyler_once, relabelled, tyler_twice]"


section \<open>The operators with the objects of Python made explicit\<close>

text \<open>
  \<^verbatim>\<open>mutate\<close> writes into a list in place and \<^verbatim>\<open>crossover\<close> builds new lists, so whether an
  input chromosome is modified depends on which list objects are shared. The store maps the
  address of a \<^verbatim>\<open>Schedule\<close> object to the address of the list its attribute
  \<^verbatim>\<open>assignments\<close> holds, and the address of a list object to its items; addresses below
  \<open>next_ref\<close> are allocated.
\<close>

record store =
  schedule_objs :: "nat \<Rightarrow> nat"
  list_objs :: "nat \<Rightarrow> gene list"
  next_ref :: nat

definition new_list :: "gene list \<Rightarrow> store \<Rightarrow> nat \<times> store" where
  "new_list xs h =
     (next_ref h, h\<lparr>list_objs := (list_objs h)(next_ref h := xs), next_ref := Suc (next_ref h)\<rparr>)"

definition new_Schedule :: "nat \<Rightarrow> store \<Rightarrow> nat \<times> store" where
  "new_Schedule num_activities h =
     (case new_list (replicate num_activities (0, 0, 0, 0)) h of (l, h) \<Rightarrow>
        (next_ref h,
         h\<lparr>schedule_objs := (schedule_objs h)(next_ref h := l), next_ref := Suc (next_ref h)\<rparr>))"

definition assignments_of :: "store \<Rightarrow> nat \<Rightarrow> gene list" where
  "assignments_of h schedule = list_objs h (schedule_objs h schedule)"

definition set_assignments :: "nat \<Rightarrow> nat \<Rightarrow> store \<Rightarrow> store" where
  "set_assignments schedule l h = h\<lparr>schedule_objs := (schedule_objs h)(schedule := l)\<rparr>"

definition write_list :: "nat \<Rightarrow> gene list \<Rightarrow> store \<Rightarrow> store" where
  "write_list l xs h = h\<lparr>list_objs := (list_objs h)(l := xs)\<rparr>"

definition mutate_gene_in_store ::
    "rat \<Rightarrow> nat \<Rightarrow> store \<times> rng \<Rightarrow> nat \<Rightarrow> error + (store \<times> rng)" where
  "mutate_gene_in_store mutation_rate mutated st i =
     (case st of (h, g) \<Rightarrow>
        bind_err (mutate_gene mutation_rate (assignments_of h mutated, g) i) (\<lambda>(genes, g).
          Inr (write_list (schedule_objs h mutated) genes h, g)))"

definition mutate_in_store :: "store \<Rightarrow> nat \<Rightarrow> rat \<Rightarrow> rng \<Rightarrow> error + (nat \<times> store \<times> rng)" where
  "mutate_in_store h schedule mutation_rate g =
     (case new_Schedule (length ACTIVITIES) h of (mutated, h) \<Rightarrow>
      case new_list (assignments_of h schedule) h of (copy, h) \<Rightarrow>
        (let h = set_assignments mutated copy h
         in bind_err (for_each (mutate_gene_in_store mutation_rate mutated)
                        [0 ..< length (assignments_of h mutated)] (h, g))
              (\<lambda>(h, g). Inr (mutated, h, g))))"

definition crossover_in_store ::
    "store \<Rightarrow> nat \<Rightarrow> nat \<Rightarrow> rng \<Rightarrow> error + ((nat \<times> nat) \<times> store \<times> rng)" where
  "crossover_in_store h parent1 parent2 g =
     bind_err (rng_integers 1 (int (length ACTIVITIES)) g) (\<lambda>(crossover_point, g).
       (case new_Schedule (length ACTIVITIES) h of (child1, h) \<Rightarrow>
        case new_Schedule (length ACTIVITIES) h of (child2, h) \<Rightarrow>
        case new_list (take (nat crossover_point) (assignments_of h parent1) @
                       drop (nat crossover_point) (assignments_of h parent2)) h of (l1, h) \<Rightarrow>
        case new_list (take (nat crossover_point) (assignments_of (set_assignments child1 l1 h) parent2) @
                       drop (nat crossover_point) (assignments_of (set_assignments child1 l1 h) parent1))
               (set_assignments child1 l1 h) of (l2, h) \<Rightarrow>
          Inr ((child1, child2), set_assignments child2 l2 h, g)))"

definition unchanged_below :: "nat \<Rightarrow> store \<Rightarrow> store \<Rightarrow> bool" where
  "unchanged_below n h h' =
     ((\<forall>r < n. schedule_objs h' r = schedule_objs h r) \<and> (\<forall>r < n. list_objs h' r = list_objs h r))"

text \<open>A store with two chromosomes, at the addresses 2 and 3.\<close>

definition two_parents :: store where
  "two_parents =
     \<lparr>schedule_objs = (\<lambda>r. 0)(2 := 0, 3 := 1),
      list_objs = (\<lambda>r. [])(0 := assignments tyler_twice, 1 := assignments tyler_once),
      next_ref = 4\<rparr>"


section \<open>The evolution engine\<close>

text \<open>A list comprehension whose element expression may raise.\<close>

fun map_err :: "('a \<Rightarrow> error + 'b) \<Rightarrow> 'a list \<Rightarrow> error + 'b list" where
  "map_err f [] = Inr []"
| "map_err f (x # xs) =
     bind_err (f x) (\<lambda>y. bind_err (map_err f xs) (\<lambda>ys. Inr (y # ys)))"

text \<open>Python \<^verbatim>\<open>max\<close> and \<^verbatim>\<open>min\<close> of a list (an empty list raises) and \<^verbatim>\<open>np.mean\<close>.\<close>

definition py_max :: "rat list \<Rightarrow> error + rat" where
  "py_max xs = (case xs of [] \<Rightarrow> Inl ValueError | x # rest \<Rightarrow> Inr (fold max rest x))"

definition py_min :: "rat list \<Rightarrow> error + rat" where
  "py_min xs = (case xs of [] \<Rightarrow> Inl ValueError | x # rest \<Rightarrow> Inr (fold min rest x))"

definition np_mean :: "rat list \<Rightarrow> rat" where
  "np_mean xs = sum_list xs / of_nat (length xs)"

text \<open>
  \<^verbatim>\<open>np.argsort\<close>: the indices in ascending order of their scores. numpy leaves the order of
  equal scores open; the model takes the stable order, and the theorems below use only that
  the result is a permutation of the indices sorted by score.
\<close>

definition argsort :: "rat list \<Rightarrow> nat list" where
  "argsort fitness_scores = sort_key (\<lambda>i. fitness_scores ! i) [0 ..< length fitness_scores]"

text \<open>The slice \<^verbatim>\<open>xs[-k:]\<close> for \<open>k \<ge> 0\<close>; \<^verbatim>\<open>xs[-0:]\<close> is the whole list.\<close>

definition last_n :: "nat \<Rightarrow> 'a list \<Rightarrow> 'a list" where
  "last_n k xs = (if k = 0 then xs else drop (length xs - k) xs)"

datatype exit_reason = Converged | MaxGenerations

text \<open>
  The variables of \<^verbatim>\<open>run_genetic_algorithm\<close> that live across iterations.
  \<open>previous_avg_fitness\<close> is \<open>None\<close> while it still holds \<^verbatim>\<open>float('-inf')\<close>.
\<close>

record ga_state =
  population :: "Schedule list"
  generation :: nat
  mutation_rate :: rat
  best_fitness_history :: "rat list"
  avg_fitness_history :: "rat list"
  worst_fitness_history :: "rat list"
  generation_history :: "nat list"
  previous_avg_fitness :: "rat option"
  rng_state :: rng

text \<open>
  The improvement in percent; \<open>None\<close> is the NaN that dividing by \<^verbatim>\<open>abs(float('-inf'))\<close>
  would give, for which every comparison is false.
\<close>

definition improvement_of :: "nat \<Rightarrow> rat \<Rightarrow> rat option \<Rightarrow> rat option" where
  "improvement_of gen avg_fitness previous =
     (if gen > 0 then
        (case previous of
           None \<Rightarrow> None
         | Some p \<Rightarrow> if p \<noteq> 0 then Some ((avg_fitness - p) / \<bar>p\<bar> * 100) else Some 0)
      else Some 0)"

definition is_converged :: "config \<Rightarrow> nat \<Rightarrow> rat option \<Rightarrow> bool" where
  "is_converged cfg gen improvement =
     (gen \<ge> MIN_GENERATIONS cfg \<and>
      (case improvement of None \<Rightarrow> False | Some i \<Rightarrow> i < IMPROVEMENT_THRESHOLD cfg \<and> i \<ge> 0))"

definition adapt_mutation_rate :: "nat \<Rightarrow> rat option \<Rightarrow> rat \<Rightarrow> rat" where
  "adapt_mutation_rate gen improvement rate =
     (if gen > 50 \<and> gen mod 50 = 0 then
        (if (case improvement of None \<Rightarrow> False | Some i \<Rightarrow> i < 2) \<and> rate > 1/10000
         then rate / 2 else rate)
      else rate)"

text \<open>One pass of the inner \<^verbatim>\<open>while\<close> loop: two tournaments, crossover, two mutations.\<close>

definition breed ::
    "config \<Rightarrow> Schedule list \<Rightarrow> rat list \<Rightarrow> rat \<Rightarrow> rng \<Rightarrow>
     error + ((Schedule \<times> Schedule) \<times> rng)" where
  "breed cfg pop fitness_scores rate g =
     bind_err (tournament_selection cfg pop fitness_scores g) (\<lambda>(parent1, g).
     bind_err (tournament_selection cfg pop fitness_scores g) (\<lambda>(parent2, g).
     bind_err (crossover parent1 parent2 g) (\<lambda>((child1, child2), g).
     bind_err (mutate child1 rate g) (\<lambda>(child1, g).
     bind_err (mutate child2 rate g) (\<lambda>(child2, g).
       Inr ((child1, child2), g))))))"

lemma bind_err_cong [fundef_cong]:
  assumes "m = m'" and "\<And>x. m' = Inr x \<Longrightarrow> f x = f' x"
  shows "bind_err m f = bind_err m' f'"
  using assms by (cases m') (simp_all add: bind_err_def)

function reproduce ::
    "config \<Rightarrow> Schedule list \<Rightarrow> rat list \<Rightarrow> rat \<Rightarrow> Schedule list \<Rightarrow> rng \<Rightarrow>
     error + (Schedule list \<times> rng)" where
  "reproduce cfg pop fitness_scores rate next_generation g =
     (if length next_generation < POPULATION_SIZE cfg then
        bind_err (breed cfg pop fitness_scores rate g) (\<lambda>((child1, child2), g).
          reproduce cfg pop fitness_scores rate
            (if length (next_generation @ [child1]) < POPULATION_SIZE cfg
             then next_generation @ [child1] @ [child2]
             else next_generation @ [child1]) g)
      else Inr (next_generation, g))"
  by pat_completeness auto
termination
  by (relation "measure (\<lambda>(cfg, pop, fs, rate, ng, g). POPULATION_SIZE cfg - length ng)") auto

declare reproduce.simps [simp del]

text \<open>
  One pass of the outer \<^verbatim>\<open>while True\<close> loop. The result holds the state after the pass and
  the \<^verbatim>\<open>break\<close> that was taken, if one was.
\<close>

definition generation_step :: "config \<Rightarrow> ga_state \<Rightarrow> error + (ga_state \<times> exit_reason option)" where
  "generation_step cfg st =
     bind_err (map_err calculate_fitness (population st)) (\<lambda>fitness_scores.
     bind_err (py_max fitness_scores) (\<lambda>best_fitness.
     bind_err (py_min fitness_scores) (\<lambda>worst_fitness.
       (let avg_fitness = np_mean fitness_scores;
            st = st\<lparr>best_fitness_history := best_fitness_history st @ [best_fitness],
                    avg_fitness_history := avg_fitness_history st @ [avg_fitness],
                    worst_fitness_history := worst_fitness_history st @ [worst_fitness],
                    generation_history := generation_history st @ [generation st]\<rparr>;
            improvement = improvement_of (generation st) avg_fitness (previous_avg_fitness st)
        in if is_converged cfg (generation st) improvement then Inr (st, Some Converged)
           else
             (let rate = adapt_mutation_rate (generation st) improvement (mutation_rate st);
                  elite_count = POPULATION_SIZE cfg div 10;
                  elite_indices = last_n elite_count (argsort fitness_scores)
              in bind_err (map_err (\<lambda>idx. py_index (population st) (int idx)) elite_indices)
                   (\<lambda>elites.
                 bind_err (reproduce cfg (population st) fitness_scores rate elites (rng_state st))
                   (\<lambda>(next_generation, g).
                   (let st = st\<lparr>population := next_generation,
                                 previous_avg_fitness := Some avg_fitness,
                                 generation := generation st + 1,
                                 mutation_rate := rate,
                                 rng_state := g\<rparr>
                    in if generation st \<ge> 1000 then Inr (st, Some MaxGenerations)
                       else Inr (st, None)))))))))"

lemma bind_err_InrE:
  assumes "bind_err m f = Inr y"
  obtains x where "m = Inr x" and "f x = Inr y"
  using assms by (cases m) (simp_all add: bind_err_def)

lemma generation_step_continues:
  assumes "generation_step cfg st = Inr (st', None)"
  shows "generation st' = generation st + 1 \<and> generation st' < 1000"
  using assms unfolding generation_step_def Let_def
  by (auto elim!: bind_err_InrE split: if_splits prod.splits)

function evolve :: "config \<Rightarrow> ga_state \<Rightarrow> error + (ga_state \<times> exit_reason)" where
  "evolve cfg st =
     bind_err (generation_step cfg st) (\<lambda>(st, break).
       case break of Some reason \<Rightarrow> Inr (st, reason) | None \<Rightarrow> evolve cfg st)"
  by pat_completeness auto
termination
proof (relation "measure (\<lambda>(cfg, st). 1000 - generation st)")
  show "wf (measure (\<lambda>(cfg, st). 1000 - generation st))" by simp
next
  fix cfg st x st' brk
  assume "generation_step cfg st = Inr x" and "(st', brk) = x" and "brk = None"
  then have "generation_step cfg st = Inr (st', None)" by simp
  from generation_step_continues [OF this]
  have "1000 - generation st' < 1000 - generation st" by arith
  then show "((cfg, st'), (cfg, st)) \<in> measure (\<lambda>(cfg, st). 1000 - generation st)" by simp
qed

declare evolve.simps [simp del]

text \<open>The list comprehension that creates the initial population, and the state before the loop.\<close>

fun create_population :: "nat \<Rightarrow> rng \<Rightarrow> error + (Schedule list \<times> rng)" where
  "create_population 0 g = Inr ([], g)"
| "create_population (Suc n) g =
     bind_err (create_random_schedule g) (\<lambda>(schedule, g).
     bind_err (create_population n g) (\<lambda>(rest, g). Inr (schedule # rest, g)))"

definition initial_state :: "config \<Rightarrow> Schedule list \<Rightarrow> rng \<Rightarrow> ga_state" where
  "initial_state cfg pop g =
     \<lparr>population = pop, generation = 0, mutation_rate = INITIAL_MUTATION_RATE cfg,
      best_fitness_history = [], avg_fitness_history = [], worst_fitness_history = [],
      generation_history = [], previous_avg_fitness = None, rng_state = g\<rparr>"

text \<open>\<^verbatim>\<open>run_genetic_algorithm\<close> without its printing: the best schedule of the last population.\<close>

definition run_genetic_algorithm :: "config \<Rightarrow> rng \<Rightarrow> error + (Schedule \<times> rat)" where
  "run_genetic_algorithm cfg g =
     bind_err (create_population (POPULATION_SIZE cfg) g) (\<lambda>(pop, g).
     bind_err (evolve cfg (initial_state cfg pop g)) (\<lambda>(st, reason).
     bind_err (map_err calculate_fitness (population st)) (\<lambda>final_fitness_scores.
     bind_err (max_by_score final_fitness_scores [0 ..< length final_fitness_scores]) (\<lambda>best_idx.
     bind_err (py_index (population st) (int best_idx)) (\<lambda>best_schedule.
     bind_err (py_index final_fitness_scores (int best_idx)) (\<lambda>best_fitness_final.
       Inr (best_schedule, best_fitness_final)))))))"

text \<open>The keys under which the lookup loop files a gene.\<close>

definition room_key :: "gene \<Rightarrow> int \<times> int" where
  "room_key gene = (case gene of (_, r, t, f) \<Rightarrow> (t, r))"

definition facilitator_key :: "gene \<Rightarrow> int \<times> int" where
  "facilitator_key gene = (case gene of (_, r, t, f) \<Rightarrow> (t, f))"


text \<open>
  What the engine needs of its configuration and population to run: a tournament size between
  1 and the population size, and a population of that size of well-formed chromosomes.
\<close>

definition engine_ok :: "config \<Rightarrow> ga_state \<Rightarrow> bool" where
  "engine_ok cfg st =
     (1 \<le> TOURNAMENT_SIZE cfg \<and> TOURNAMENT_SIZE cfg \<le> POPULATION_SIZE cfg \<and>
      length (population st) = POPULATION_SIZE cfg \<and> list_all well_formed (population st))"


text \<open>
  A run that can be traced by hand: every random draw is 0, so every activity is put in room 0
  at time 0 with facilitator 0; the population has one chromosome, the tournament size is 2,
  and the loop may converge in generation 0.
\<close>

definition all_zero :: Schedule where
  "all_zero = \<lparr>assignments =
     [(0,0,0,0), (1,0,0,0), (2,0,0,0), (3,0,0,0), (4,0,0,0), (5,0,0,0),
      (6,0,0,0), (7,0,0,0), (8,0,0,0), (9,0,0,0), (10,0,0,0)]\<rparr>"
definition lone_config :: config where
  "lone_config = \<lparr>POPULATION_SIZE = 1, INITIAL_MUTATION_RATE = 1/100, MIN_GENERATIONS = 0,
      IMPROVEMENT_THRESHOLD = 1/100, TOURNAMENT_SIZE = 2\<rparr>"

definition converged_at_once :: ga_state where
  "converged_at_once =
     \<lparr>population = [all_zero], generation = 0, mutation_rate = 1/100,
      best_fitness_history = [- 84/5], avg_fitness_history = [- 84/5],
      worst_fitness_history = [- 84/5], generation_history = [0],
      previous_avg_fitness = None, rng_state = (\<lambda>n. 0)\<rparr>"


text \<open>Variants of the configuration of the source, for concrete runs.\<close>

definition patient_config :: config where
  "patient_config =
     default_config\<lparr>POPULATION_SIZE := 1, TOURNAMENT_SIZE := 1, MIN_GENERATIONS := 1000\<rparr>"

definition oversized_tournament :: config where
  "oversized_tournament = default_config\<lparr>POPULATION_SIZE := 10, TOURNAMENT_SIZE := 11\<rparr>"

definition empty_population :: config where
  "empty_population = default_config\<lparr>POPULATION_SIZE := 0\<rparr>"


text \<open>
  The invariant of the history of best scores: it is ascending, and the current population
  holds a chromosome that scores at least as much as every entry.
\<close>

definition best_history_ok :: "ga_state \<Rightarrow> bool" where
  "best_history_ok st =
     (sorted (best_fitness_history st) \<and>
      (\<forall>h \<in> set (best_fitness_history st).
         \<exists>s \<in> set (population st). \<exists>f. calculate_fitness s = Inr f \<and> h \<le> f))"


section \<open>The fitness in double precision\<close>

text \<open>
  The program accumulates the fitness in IEEE doubles: every \<^verbatim>\<open>fitness += c\<close> and
  \<^verbatim>\<open>fitness -= c\<close> rounds its result, and the literal \<open>c\<close> is itself the double nearest to
  the decimal fraction written. \<open>round_double\<close> is rounding to the nearest double, ties to
  even, with a 53 bit significand, on the rationals; overflow and subnormal numbers are not
  modelled (the scores stay far inside the normal range). Rounding is symmetric, so
  subtracting a literal is adding its negation.
\<close>

definition double_exponent :: "rat \<Rightarrow> int" where
  "double_exponent x =
     (if 1 \<le> \<bar>x\<bar> then bitlen \<lfloor>\<bar>x\<bar>\<rfloor> - 1 else - bitlen (\<lceil>1 / \<bar>x\<bar>\<rceil> - 1))"

definition round_half_even :: "rat \<Rightarrow> int" where
  "round_half_even m =
     (let f = \<lfloor>m\<rfloor>; d = m - of_int f
      in if d < 1/2 then f else if d > 1/2 then f + 1 else if even f then f else f + 1)"

definition round_double :: "rat \<Rightarrow> rat" where
  "round_double x =
     (if x = 0 then 0
      else (let ulp = 2 powi (double_exponent x - 52)
            in of_int (round_half_even (x / ulp)) * ulp))"

definition double_add :: "rat \<Rightarrow> rat \<Rightarrow> rat" where
  "double_add fitness c = round_double (fitness + round_double c)"

text \<open>
  \<^verbatim>\<open>calculate_fitness\<close> once more, with the addition that every \<^verbatim>\<open>+=\<close> and \<^verbatim>\<open>-=\<close>
  performs as a parameter: with \<open>(+)\<close> it is the evaluator in exact arithmetic of the
  section above, with \<open>double_add\<close> it computes the double that the program returns.
\<close>

definition room_conflict_in :: "(rat \<Rightarrow> rat \<Rightarrow> rat) \<Rightarrow> nat \<Rightarrow> rat \<Rightarrow> rat" where
  "room_conflict_in add n_in_room fitness =
     (if n_in_room > 1 then add fitness (- (1/2)) else fitness)"

definition room_size_in :: "(rat \<Rightarrow> rat \<Rightarrow> rat) \<Rightarrow> Activity \<Rightarrow> Room \<Rightarrow> rat \<Rightarrow> rat" where
  "room_size_in add activity room fitness =
     (if enrollment activity > capacity room then add fitness (- (1/2))
      else if of_int (capacity room) > (3::rat) * of_int (enrollment activity)
        then add fitness (- (2/5))
      else if of_int (capacity room) > (3/2::rat) * of_int (enrollment activity)
        then add fitness (- (1/5))
      else add fitness (3/10))"

definition facilitator_preference_in ::
    "(rat \<Rightarrow> rat \<Rightarrow> rat) \<Rightarrow> Activity \<Rightarrow> string \<Rightarrow> rat \<Rightarrow> rat" where
  "facilitator_preference_in add activity facilitator fitness =
     (if facilitator \<in> set (preferred_facilitators activity) then add fitness (1/2)
      else if facilitator \<in> set (other_facilitators activity) then add fitness (1/5)
      else add fitness (- (1/10)))"

definition facilitator_load_in :: "(rat \<Rightarrow> rat \<Rightarrow> rat) \<Rightarrow> nat \<Rightarrow> rat \<Rightarrow> rat" where
  "facilitator_load_in add n_in_slot fitness =
     (if n_in_slot = 1 then add fitness (1/5)
      else if n_in_slot > 1 then add fitness (- (1/5))
      else fitness)"

definition facilitator_total_load_in ::
    "(rat \<Rightarrow> rat \<Rightarrow> rat) \<Rightarrow> string \<Rightarrow> int \<Rightarrow> rat \<Rightarrow> rat" where
  "facilitator_total_load_in add facilitator total_load fitness =
     (if total_load > 4 then add fitness (- (1/2))
      else if total_load < 3 then
        (if facilitator \<noteq> ''Tyler'' \<or> total_load \<ge> 2 then add fitness (- (2/5)) else fitness)
      else fitness)"

definition evaluate_activity_in ::
    "(rat \<Rightarrow> rat \<Rightarrow> rat) \<Rightarrow> lookups \<Rightarrow> rat \<Rightarrow> nat \<times> gene \<Rightarrow> error + rat" where
  "evaluate_activity_in add L fitness x =
     (case x of (activity_idx, (_, room_idx, time_idx, facilitator_idx)) \<Rightarrow>
        bind_err (py_index ACTIVITIES (int activity_idx)) (\<lambda>activity.
        bind_err (py_index ROOMS room_idx) (\<lambda>room.
        bind_err (py_index FACILITATORS facilitator_idx) (\<lambda>facilitator.
        bind_err (dict_get (time_room_activities L) (time_idx, room_idx)) (\<lambda>in_room.
        bind_err (dict_get (time_facilitator_activities L) (time_idx, facilitator_idx)) (\<lambda>in_slot.
        bind_err (dict_get (facilitator_total_activities L) facilitator_idx) (\<lambda>total_load.
          Inr (facilitator_total_load_in add facilitator total_load
                (facilitator_load_in add (length in_slot)
                  (facilitator_preference_in add activity facilitator
                    (room_size_in add activity room
                      (room_conflict_in add (length in_room) fitness))))))))))))"

definition building_pair_in ::
    "(rat \<Rightarrow> rat \<Rightarrow> rat) \<Rightarrow> Schedule \<Rightarrow> rat \<Rightarrow> nat \<times> nat \<Rightarrow> error + rat" where
  "building_pair_in add schedule fitness p =
     (case p of (act1_idx, act2_idx) \<Rightarrow>
        bind_err (room_of schedule (int act1_idx)) (\<lambda>room1_idx.
        bind_err (room_of schedule (int act2_idx)) (\<lambda>room2_idx.
        bind_err (room_name room1_idx) (\<lambda>room1_name.
        bind_err (room_name room2_idx) (\<lambda>room2_name.
          Inr (if in_roman_beach room1_name \<noteq> in_roman_beach room2_name
               then add fitness (- (2/5)) else fitness))))))"

definition consecutive_slot_in ::
    "(rat \<Rightarrow> rat \<Rightarrow> rat) \<Rightarrow> Schedule \<Rightarrow> int \<Rightarrow> int list \<Rightarrow> rat \<Rightarrow> nat \<Rightarrow> error + rat" where
  "consecutive_slot_in add schedule facilitator_idx sorted_times fitness i =
     (if sorted_times ! (i + 1) - sorted_times ! i = 1 then
        (let time1 = sorted_times ! i;
             time2 = sorted_times ! (i + 1);
             activities_at_time1 = activities_at schedule time1 facilitator_idx;
             activities_at_time2 = activities_at schedule time2 facilitator_idx
         in for_each (building_pair_in add schedule)
              (List.product activities_at_time1 activities_at_time2) (add fitness (1/2)))
      else Inr fitness)"

definition consecutive_facilitator_in ::
    "(rat \<Rightarrow> rat \<Rightarrow> rat) \<Rightarrow> Schedule \<Rightarrow> rat \<Rightarrow> int \<times> int list \<Rightarrow> error + rat" where
  "consecutive_facilitator_in add schedule fitness item =
     (case item of (facilitator_idx, time_slots) \<Rightarrow>
        (let sorted_times = sort time_slots
         in for_each (consecutive_slot_in add schedule facilitator_idx sorted_times)
              [0 ..< length sorted_times - 1] fitness))"

definition sections_spacing_in :: "(rat \<Rightarrow> rat \<Rightarrow> rat) \<Rightarrow> int \<Rightarrow> int \<Rightarrow> rat \<Rightarrow> rat" where
  "sections_spacing_in add time_a time_b fitness =
     (let fitness = (if \<bar>time_a - time_b\<bar> > 4 then add fitness (1/2) else fitness)
      in if time_a = time_b then add fitness (- (1/2)) else fitness)"

definition sla_pair_in ::
    "(rat \<Rightarrow> rat \<Rightarrow> rat) \<Rightarrow> rat \<Rightarrow> (int \<times> int) \<times> (int \<times> int) \<Rightarrow> error + rat" where
  "sla_pair_in add fitness p =
     (case p of ((sla191_time, sla191_room), (sla101_time, sla101_room)) \<Rightarrow>
        (let time_diff = \<bar>sla191_time - sla101_time\<bar>
         in if time_diff = 1 then
              bind_err (room_name sla191_room) (\<lambda>sla191_room_name.
              bind_err (room_name sla101_room) (\<lambda>sla101_room_name.
                Inr (if in_roman_beach sla191_room_name \<noteq> in_roman_beach sla101_room_name
                     then add (add fitness (1/2)) (- (2/5)) else add fitness (1/2))))
            else if time_diff = 2 then Inr (add fitness (1/4))
            else if time_diff = 0 then Inr (add fitness (- (1/4)))
            else Inr fitness))"

definition activity_specific_in ::
    "(rat \<Rightarrow> rat \<Rightarrow> rat) \<Rightarrow> Schedule \<Rightarrow> rat \<Rightarrow> error + rat" where
  "activity_specific_in add schedule fitness =
     bind_err (activity_named ''SLA101A'') (\<lambda>sla101a_idx.
     bind_err (activity_named ''SLA101B'') (\<lambda>sla101b_idx.
     bind_err (activity_named ''SLA191A'') (\<lambda>sla191a_idx.
     bind_err (activity_named ''SLA191B'') (\<lambda>sla191b_idx.
     bind_err (time_of schedule sla101a_idx) (\<lambda>time_101a.
     bind_err (time_of schedule sla101b_idx) (\<lambda>time_101b.
     bind_err (time_of schedule sla191a_idx) (\<lambda>time_191a.
     bind_err (time_of schedule sla191b_idx) (\<lambda>time_191b.
     bind_err (room_of schedule sla101a_idx) (\<lambda>room_101a.
     bind_err (room_of schedule sla101b_idx) (\<lambda>room_101b.
     bind_err (room_of schedule sla191a_idx) (\<lambda>room_191a.
     bind_err (room_of schedule sla191b_idx) (\<lambda>room_191b.
       for_each (sla_pair_in add)
         (List.product [(time_191a, room_191a), (time_191b, room_191b)]
                       [(time_101a, room_101a), (time_101b, room_101b)])
         (sections_spacing_in add time_191a time_191b
           (sections_spacing_in add time_101a time_101b fitness))))))))))))))"

definition calculate_fitness_in :: "(rat \<Rightarrow> rat \<Rightarrow> rat) \<Rightarrow> Schedule \<Rightarrow> error + rat" where
  "calculate_fitness_in add schedule =
     (let L = build_lookups schedule
      in bind_err (for_each (evaluate_activity_in add L) (enumerate 0 (assignments schedule)) 0)
           (\<lambda>fitness.
         bind_err (for_each (consecutive_facilitator_in add schedule) (facilitator_time_slots L)
                     fitness)
           (activity_specific_in add schedule)))"

text \<open>
  The linear combination of the counts, evaluated in doubles from left to right as Python
  evaluates the expression: each product of a literal and a count is rounded, and so is each
  sum.
\<close>

definition weights :: "(rat \<times> vkey) list" where
  "weights =
     [(- (1/2), room_conflicts), (- (1/2), room_too_small), (- (2/5), room_too_large_3x),
      (- (1/5), room_too_large_1_5x), (3/10, room_good_fit), (1/2, facilitator_preferred),
      (1/5, facilitator_other), (- (1/10), facilitator_unlisted),
      (1/5, facilitator_single_slot), (- (1/5), facilitator_double_booked),
      (- (1/2), facilitator_overload_4plus), (- (2/5), facilitator_underload_less3),
      (1/2, facilitator_consecutive_bonus), (- (2/5), facilitator_consecutive_building_penalty),
      (1/2, sla101_sections_far_apart), (- (1/2), sla101_sections_same_time),
      (1/2, sla191_sections_far_apart), (- (1/2), sla191_sections_same_time),
      (1/2, sla101_191_consecutive), (- (2/5), sla101_191_consecutive_building_penalty),
      (1/4, sla101_191_separated_1hr), (- (1/4), sla101_191_same_time)]"

definition weighted_sum_double :: "violations \<Rightarrow> rat" where
  "weighted_sum_double v =
     foldl (\<lambda>acc (w, k). round_double (acc + round_double (round_double w * of_int (v k))))
       0 weights"

definition weighted_violations_double :: "Schedule \<Rightarrow> error + rat" where
  "weighted_violations_double schedule =
     bind_err (get_constraint_violations schedule) (\<lambda>v. Inr (weighted_sum_double v))"

section \<open>The fitness is the weighted sum of the violation counts\<close>

abbreviation scored :: "error + violations \<Rightarrow> error + rat" where
  "scored r \<equiv> bind_err r (\<lambda>v. Inr (weighted_sum v))"

lemma bind_err_simps [simp]:
  "bind_err (Inl e) f = Inl e" "bind_err (Inr x) f = f x"
  by (simp_all add: bind_err_def)

lemma weighted_sum_incr: "weighted_sum (incr k v) = weighted_sum v +
  (case k of room_conflicts \<Rightarrow> -1/2 | room_too_small \<Rightarrow> -1/2 | room_too_large_1_5x \<Rightarrow> -1/5 | room_too_large_3x \<Rightarrow> -2/5 | room_good_fit \<Rightarrow> 3/10
  | facilitator_preferred \<Rightarrow> 1/2 | facilitator_other \<Rightarrow> 1/5 | facilitator_unlisted \<Rightarrow> -1/10
  | facilitator_single_slot \<Rightarrow> 1/5 | facilitator_double_booked \<Rightarrow> -1/5
  | facilitator_overload_4plus \<Rightarrow> -1/2 | facilitator_underload_less3 \<Rightarrow> -2/5
  | facilitator_consecutive_bonus \<Rightarrow> 1/2 | facilitator_consecutive_building_penalty \<Rightarrow> -2/5
  | sla101_sections_far_apart \<Rightarrow> 1/2 | sla101_sections_same_time \<Rightarrow> -1/2
  | sla191_sections_far_apart \<Rightarrow> 1/2 | sla191_sections_same_time \<Rightarrow> -1/2
  | sla101_191_consecutive \<Rightarrow> 1/2 | sla101_191_consecutive_building_penalty \<Rightarrow> -2/5
  | sla101_191_separated_1hr \<Rightarrow> 1/4 | sla101_191_same_time \<Rightarrow> -1/4)"
  by (cases k) (simp_all add: weighted_sum_def incr_def algebra_simps)

lemma for_each_weighted:
  assumes "\<And>v x. f (weighted_sum v) x = scored (g v x)"
  shows "for_each f xs (weighted_sum v) = scored (for_each g xs v)"
  using assms
proof (induction xs arbitrary: v)
  case Nil
  then show ?case by simp
next
  case (Cons x xs)
  have step: "f (weighted_sum v) x = scored (g v x)"
    using Cons.prems by simp
  show ?case
  proof (cases "g v x")
    case (Inl e)
    then show ?thesis using step by simp
  next
    case (Inr v')
    then show ?thesis using step Cons.IH [of v'] Cons.prems by simp
  qed
qed

lemma room_conflict_weighted:
  "room_conflict n (weighted_sum v) = weighted_sum (count_room_conflict n v)"
  by (simp add: room_conflict_def count_room_conflict_def weighted_sum_incr)

lemma room_size_weighted:
  "room_size a r (weighted_sum v) = weighted_sum (count_room_size a r v)"
  by (simp add: room_size_def count_room_size_def weighted_sum_incr)

lemma facilitator_preference_weighted:
  "facilitator_preference a f (weighted_sum v) = weighted_sum (count_facilitator_preference a f v)"
  by (simp add: facilitator_preference_def count_facilitator_preference_def weighted_sum_incr)

lemma facilitator_load_weighted:
  "facilitator_load n (weighted_sum v) = weighted_sum (count_facilitator_load n v)"
  by (simp add: facilitator_load_def count_facilitator_load_def weighted_sum_incr)

lemma facilitator_total_load_weighted:
  "facilitator_total_load f n (weighted_sum v) = weighted_sum (count_facilitator_total_load f n v)"
  by (simp add: facilitator_total_load_def count_facilitator_total_load_def weighted_sum_incr)

lemma evaluate_activity_weighted:
  "evaluate_activity L (weighted_sum v) x = scored (count_activity L v x)"
  by (simp add: evaluate_activity_def count_activity_def room_conflict_weighted
      room_size_weighted facilitator_preference_weighted facilitator_load_weighted
      facilitator_total_load_weighted bind_err_def split: prod.splits sum.splits)

lemma building_pair_weighted:
  "building_pair s (weighted_sum v) p = scored (count_building_pair s v p)"
  by (simp add: building_pair_def count_building_pair_def weighted_sum_incr bind_err_def
      split: prod.splits sum.splits)

lemma consecutive_slot_weighted:
  "consecutive_slot s f ts (weighted_sum v) i =
     scored (count_consecutive_slot s f ts v i)"
proof -
  have "weighted_sum v + 1/2 = weighted_sum (incr facilitator_consecutive_bonus v)"
    by (simp add: weighted_sum_incr)
  then show ?thesis
    by (simp add: consecutive_slot_def count_consecutive_slot_def Let_def
        for_each_weighted [where f = "building_pair s" and g = "count_building_pair s", OF building_pair_weighted])
qed

lemma consecutive_facilitator_weighted:
  "consecutive_facilitator s (weighted_sum v) item =
     scored (count_consecutive_facilitator s v item)"
  by (simp add: consecutive_facilitator_def count_consecutive_facilitator_def Let_def
      for_each_weighted [where f = "consecutive_slot s a b" and g = "count_consecutive_slot s a b" for a b, OF consecutive_slot_weighted] split: prod.splits)

lemma sections_spacing_101_weighted:
  "sections_spacing a b (weighted_sum v) =
     weighted_sum (count_sections_spacing sla101_sections_far_apart sla101_sections_same_time a b v)"
  by (simp add: sections_spacing_def count_sections_spacing_def weighted_sum_incr Let_def)

lemma sections_spacing_191_weighted:
  "sections_spacing a b (weighted_sum v) =
     weighted_sum (count_sections_spacing sla191_sections_far_apart sla191_sections_same_time a b v)"
  by (simp add: sections_spacing_def count_sections_spacing_def weighted_sum_incr Let_def)

lemma sla_pair_weighted:
  "sla_pair (weighted_sum v) p = scored (count_sla_pair v p)"
  by (simp add: sla_pair_def count_sla_pair_def weighted_sum_incr bind_err_def Let_def
      split: prod.splits sum.splits)

lemma bind_err_assoc: "bind_err (bind_err m g) h = bind_err m (\<lambda>x. bind_err (g x) h)"
  by (cases m) simp_all

lemma sla_pairs_weighted:
  "for_each sla_pair xs (sections_spacing a b (sections_spacing c d (weighted_sum v))) =
   scored (for_each count_sla_pair xs
         (count_sections_spacing sla191_sections_far_apart sla191_sections_same_time a b
            (count_sections_spacing sla101_sections_far_apart sla101_sections_same_time c d v)))"
proof -
  have "sections_spacing a b (sections_spacing c d (weighted_sum v)) =
        weighted_sum (count_sections_spacing sla191_sections_far_apart sla191_sections_same_time a b
            (count_sections_spacing sla101_sections_far_apart sla101_sections_same_time c d v))"
    unfolding sections_spacing_101_weighted [of c d v]
    by (rule sections_spacing_191_weighted)
  then show ?thesis
    by (simp only: for_each_weighted [where f = sla_pair and g = count_sla_pair, OF sla_pair_weighted])
qed

lemma activity_specific_weighted:
  "activity_specific s (weighted_sum v) = scored (count_activity_specific s v)"
  by (simp only: activity_specific_def count_activity_specific_def bind_err_assoc
      sla_pairs_weighted)

lemma weighted_sum_zero: "weighted_sum (\<lambda>k. 0) = 0"
  by (simp add: weighted_sum_def)

text \<open>
  In exact arithmetic \<^verbatim>\<open>calculate_fitness\<close> is the weighted sum of the counts that
  \<^verbatim>\<open>get_constraint_violations\<close> returns; when one of them raises, the other raises the
  same exception.
\<close>

lemma calculate_fitness_weighted:
  "calculate_fitness schedule = scored (get_constraint_violations schedule)"
proof -
  let ?L = "build_lookups schedule"
  let ?xs = "enumerate 0 (assignments schedule)"
  have a: "for_each (evaluate_activity ?L) ?xs 0 =
           scored (for_each (count_activity ?L) ?xs (\<lambda>k. 0))"
    using for_each_weighted [where f = "evaluate_activity ?L" and g = "count_activity ?L" and v = "\<lambda>k. 0" and xs = ?xs, OF evaluate_activity_weighted]
    by (simp add: weighted_sum_zero)
  show ?thesis
  proof (cases "for_each (count_activity ?L) ?xs (\<lambda>k. 0)")
    case (Inl e)
    then show ?thesis using a
      by (simp add: calculate_fitness_def get_constraint_violations_def Let_def)
  next
    case (Inr v1)
    note v1 = this
    have b: "for_each (consecutive_facilitator schedule) (facilitator_time_slots ?L) (weighted_sum v1) =
             scored (for_each (count_consecutive_facilitator schedule) (facilitator_time_slots ?L) v1)"
      by (rule for_each_weighted [where f = "consecutive_facilitator schedule" and g = "count_consecutive_facilitator schedule", OF consecutive_facilitator_weighted])
    show ?thesis
    proof (cases "for_each (count_consecutive_facilitator schedule) (facilitator_time_slots ?L) v1")
      case (Inl e)
      then show ?thesis using a b v1
        by (simp add: calculate_fitness_def get_constraint_violations_def Let_def)
    next
      case (Inr v2)
      then show ?thesis using a b v1
        by (simp add: calculate_fitness_def get_constraint_violations_def Let_def
            activity_specific_weighted)
    qed
  qed
qed

section \<open>Exact arithmetic against double precision\<close>

text \<open>With exact addition the parametrised evaluator is \<open>calculate_fitness\<close>.\<close>

lemma room_conflict_in_exact: "room_conflict_in (+) = room_conflict"
  by (intro ext) (simp add: room_conflict_in_def room_conflict_def)

lemma room_size_in_exact: "room_size_in (+) = room_size"
  by (intro ext) (simp add: room_size_in_def room_size_def)

lemma facilitator_preference_in_exact: "facilitator_preference_in (+) = facilitator_preference"
  by (intro ext) (simp add: facilitator_preference_in_def facilitator_preference_def)

lemma facilitator_load_in_exact: "facilitator_load_in (+) = facilitator_load"
  by (intro ext) (simp add: facilitator_load_in_def facilitator_load_def)

lemma facilitator_total_load_in_exact: "facilitator_total_load_in (+) = facilitator_total_load"
  by (intro ext) (simp add: facilitator_total_load_in_def facilitator_total_load_def)

lemma evaluate_activity_in_exact: "evaluate_activity_in (+) = evaluate_activity"
  by (intro ext)
    (simp add: evaluate_activity_in_def evaluate_activity_def room_conflict_in_exact
      room_size_in_exact facilitator_preference_in_exact facilitator_load_in_exact
      facilitator_total_load_in_exact split: prod.splits)

lemma building_pair_in_exact: "building_pair_in (+) = building_pair"
  by (intro ext) (simp add: building_pair_in_def building_pair_def split: prod.splits cong: if_cong)

lemma consecutive_slot_in_exact: "consecutive_slot_in (+) = consecutive_slot"
  by (intro ext) (simp add: consecutive_slot_in_def consecutive_slot_def building_pair_in_exact)

lemma consecutive_facilitator_in_exact: "consecutive_facilitator_in (+) = consecutive_facilitator"
  by (intro ext)
    (simp add: consecutive_facilitator_in_def consecutive_facilitator_def
      consecutive_slot_in_exact split: prod.splits)

lemma sections_spacing_in_exact: "sections_spacing_in (+) = sections_spacing"
  by (intro ext) (simp add: sections_spacing_in_def sections_spacing_def)

lemma sla_pair_in_exact: "sla_pair_in (+) = sla_pair"
  by (intro ext) (simp add: sla_pair_in_def sla_pair_def Let_def split: prod.splits cong: if_cong)

lemma activity_specific_in_exact: "activity_specific_in (+) = activity_specific"
  by (intro ext)
    (simp add: activity_specific_in_def activity_specific_def sections_spacing_in_exact
      sla_pair_in_exact)

lemma calculate_fitness_in_exact: "calculate_fitness_in (+) schedule = calculate_fitness schedule"
  by (simp add: calculate_fitness_in_def calculate_fitness_def evaluate_activity_in_exact
      consecutive_facilitator_in_exact activity_specific_in_exact)

text \<open>The weights of \<open>weighted_sum_double\<close> are those of the exact linear combination.\<close>

lemma weighted_sum_weights:
  "weighted_sum v = foldl (\<lambda>acc (w, k). acc + w * of_int (v k)) 0 weights"
  by (simp add: weighted_sum_def weights_def)

text \<open>Evaluation of \<open>round_double\<close> on numerals.\<close>

lemma bitlen_numeral:
  "bitlen 1 = 1"
  "bitlen (numeral Num.One) = 1"
  "bitlen (numeral (Num.Bit0 n)) = bitlen (numeral n) + 1"
  "bitlen (numeral (Num.Bit1 n)) = bitlen (numeral n) + 1"
  by (subst compute_bitlen, simp)+

lemma floor_rat_numeral:
  "\<lfloor>numeral a / numeral b :: rat\<rfloor> = numeral a div numeral b"
  "\<lfloor>- (numeral a / numeral b) :: rat\<rfloor> = - numeral a div numeral b"
  "\<lfloor>1 / numeral b :: rat\<rfloor> = 1 div numeral b"
  "\<lfloor>- (1 / numeral b) :: rat\<rfloor> = - 1 div numeral b"
  "\<lceil>numeral a / numeral b :: rat\<rceil> = - (- numeral a div numeral b)"
  "\<lceil>1 / numeral b :: rat\<rceil> = - (- 1 div numeral b)"
  using floor_divide_of_int_eq [of "numeral a" "numeral b", where ?'a = rat]
    floor_divide_of_int_eq [of "- numeral a" "numeral b", where ?'a = rat]
    floor_divide_of_int_eq [of 1 "numeral b", where ?'a = rat]
    floor_divide_of_int_eq [of "- 1" "numeral b", where ?'a = rat]
  by (simp_all add: ceiling_def)

lemma power_int_two:
  "(2::rat) powi numeral n = 2 ^ numeral n"
  "(2::rat) powi (- numeral n) = 1 / 2 ^ numeral n"
  "(2::rat) powi 0 = 1"
  by (simp_all add: power_int_def inverse_eq_divide power_one_over)

lemmas double_eval = double_add_def round_double_def double_exponent_def round_half_even_def
  Let_def power_int_two bitlen_numeral floor_rat_numeral

text \<open>
  The schedule that puts every activity in room 0 at time 0 with facilitator 0. Whatever the
  addition, the evaluator adds these 61 literals in this order.
\<close>

lemma all_zero_additions:
  "calculate_fitness_in add all_zero =
     Inr (foldl add 0
       [- (1/2), - (1/2), 1/2, - (1/5), - (1/2),
        - (1/2), - (1/2), 1/2, - (1/5), - (1/2),
        - (1/2), - (1/2), 1/2, - (1/5), - (1/2),
        - (1/2), - (1/2), 1/2, - (1/5), - (1/2),
        - (1/2), - (1/2), 1/2, - (1/5), - (1/2),
        - (1/2), - (1/2), 1/2, - (1/5), - (1/2),
        - (1/2), - (1/2), - (1/10), - (1/5), - (1/2),
        - (1/2), - (1/2), - (1/10), - (1/5), - (1/2),
        - (1/2), 3/10, - (1/10), - (1/5), - (1/2),
        - (1/2), - (1/2), - (1/10), - (1/5), - (1/2),
        - (1/2), - (1/2), 1/2, - (1/5), - (1/2),
        - (1/2), - (1/2), - (1/4), - (1/4), - (1/4), - (1/4)])"
  by code_simp

lemma all_zero_double:
  "calculate_fitness_in double_add all_zero = Inr (- (1182194902184755 / 70368744177664))"
  by (simp add: all_zero_additions double_eval)

lemma all_zero_counts:
  "bind_err (get_constraint_violations all_zero) (\<lambda>v. Inr (map v (map snd weights))) =
     Inr [11, 10, 0, 0, 1, 7, 0, 4, 0, 11, 11, 0, 0, 0, 0, 1, 0, 1, 0, 0, 0, 4]"
  by code_simp

lemma all_zero_formula:
  "weighted_violations_double all_zero = Inr (- (4728779608739021 / 281474976710656))"
proof (cases "get_constraint_violations all_zero")
  case (Inl e)
  then show ?thesis using all_zero_counts by simp
next
  case (Inr v)
  then have "map v (map snd weights) =
      [11, 10, 0, 0, 1, 7, 0, 4, 0, 11, 11, 0, 0, 0, 0, 1, 0, 1, 0, 0, 0, 4]"
    using all_zero_counts by simp
  then have "weighted_sum_double v = - (4728779608739021 / 281474976710656)"
    by (simp add: weights_def weighted_sum_double_def double_eval)
  then show ?thesis
    using Inr by (simp add: weighted_violations_double_def)
qed

text \<open>
  Claim C2 as stated, read on the doubles that the program computes, fails. For the schedule
  \<open>all_zero\<close> the program's running sum is the double -16.799999999999997, whereas the
  linear combination of the counts, evaluated in doubles, is -16.8 (the double nearest to
  -84/5).
\<close>

theorem double_fitness_differs_from_formula:
  "calculate_fitness_in double_add all_zero = Inr (- (1182194902184755 / 70368744177664)) \<and>
   weighted_violations_double all_zero = Inr (- (4728779608739021 / 281474976710656)) \<and>
   calculate_fitness_in double_add all_zero \<noteq> weighted_violations_double all_zero"
  by (simp add: all_zero_double all_zero_formula)

text \<open>
  Claim C2, as amended. In exact arithmetic, that is with every \<^verbatim>\<open>+=\<close> and \<^verbatim>\<open>-=\<close> of
  \<^verbatim>\<open>calculate_fitness\<close> read as addition of rationals, the score of every schedule is the
  linear combination of the counts of \<^verbatim>\<open>get_constraint_violations\<close> with the weights of the
  claim, and one raises exactly when the other does.
\<close>

theorem fitness_is_weighted_violations:
  "calculate_fitness_in (+) schedule = calculate_fitness schedule \<and>
   calculate_fitness schedule = scored (get_constraint_violations schedule)"
  using calculate_fitness_in_exact [of schedule] calculate_fitness_weighted [of schedule]
  by simp

section \<open>The facilitator total-load rule\<close>

lemma total_build_step:
  "facilitator_total_activities (build_step L (n, g)) f =
     (if facilitator_of g = f
      then Some ((case facilitator_total_activities L f of None \<Rightarrow> 0 | Some c \<Rightarrow> c) + 1)
      else facilitator_total_activities L f)"
  by (cases g) (simp add: build_step_def facilitator_of_def)

lemma total_foldl:
  "facilitator_total_activities (foldl build_step L (enumerate n xs)) f =
     (if filter (\<lambda>g. facilitator_of g = f) xs = [] then facilitator_total_activities L f
      else Some ((case facilitator_total_activities L f of None \<Rightarrow> 0 | Some c \<Rightarrow> c) +
                 int (length (filter (\<lambda>g. facilitator_of g = f) xs))))"
proof (induction xs arbitrary: L n)
  case Nil
  then show ?case by simp
next
  case (Cons g gs)
  show ?case
    by (simp add: Cons.IH total_build_step split: option.splits)
qed

lemma total_build_lookups:
  "facilitator_total_activities (build_lookups s) f =
     (if activity_count s f = 0 then None else Some (activity_count s f))"
  by (simp add: build_lookups_def total_foldl empty_lookups_def activity_count_def)

text \<open>
  Each of the five rules adds a constant to the running score, so the value that one
  activity adds does not depend on the score reached before it: the activity loop is the sum
  of the contributions \<open>evaluate_activity L 0\<close>.
\<close>

lemma rules_shift:
  "facilitator_total_load facilitator total_load
     (facilitator_load n_in_slot (facilitator_preference activity facilitator
        (room_size activity room (room_conflict n_in_room fitness)))) =
   fitness + facilitator_total_load facilitator total_load
     (facilitator_load n_in_slot (facilitator_preference activity facilitator
        (room_size activity room (room_conflict n_in_room 0))))"
  by (simp add: facilitator_total_load_def facilitator_load_def facilitator_preference_def
      room_size_def room_conflict_def)

lemma evaluate_activity_shift:
  "evaluate_activity L fitness x =
     bind_err (evaluate_activity L 0 x) (\<lambda>contribution. Inr (fitness + contribution))"
proof -
  obtain i a r t f where x: "x = (i, a, r, t, f)"
    by (cases x) auto
  show ?thesis
    unfolding x evaluate_activity_def
    by (simp add: bind_err_def rules_shift [of _ _ _ _ _ _ fitness] split: sum.splits)
qed

lemma activity_loop_sum:
  "for_each (evaluate_activity L) xs fitness =
     bind_err (map_err (evaluate_activity L 0) xs)
       (\<lambda>contributions. Inr (fitness + sum_list contributions))"
proof (induction xs arbitrary: fitness)
  case Nil
  then show ?case by simp
next
  case (Cons x xs)
  show ?case
  proof (cases "evaluate_activity L 0 x")
    case (Inl e)
    then have "evaluate_activity L fitness x = Inl e"
      using evaluate_activity_shift [of L fitness x] by simp
    then show ?thesis using Inl by simp
  next
    case (Inr d)
    then have "evaluate_activity L fitness x = Inr (fitness + d)"
      using evaluate_activity_shift [of L fitness x] by simp
    then show ?thesis
      using Inr Cons.IH [of "fitness + d"]
      by (cases "map_err (evaluate_activity L 0) xs") (simp_all add: add.assoc)
  qed
qed

text \<open>
  Claim C1, as amended. The score of a schedule is the sum of the contributions of its
  activities, passed on to the rules on consecutive slots and on the SLA sections. When the
  contribution of activity \<open>i\<close>, stored as \<open>(a, r, t, f)\<close>, is computed, the lookup of the
  total of facilitator \<open>f\<close> gives the number of activities of \<open>f\<close> in the schedule, and the
  contribution is that of the four rules before plus the total-load term: -0.5 when the
  total is above 4, -0.4 when it is below 3 unless the facilitator is Tyler and the total
  is below 2 (that is, 1), and nothing otherwise.
\<close>

theorem facilitator_total_load_rule:
  "(i < length (assignments s) \<and> assignments s ! i = (a, r, t, f) \<and>
    evaluate_activity (build_lookups s) fitness (i, assignments s ! i) = Inr fitness' \<longrightarrow>
    (\<exists>activity room facilitator in_room in_slot.
       py_index ACTIVITIES (int i) = Inr activity \<and>
       py_index ROOMS r = Inr room \<and>
       py_index FACILITATORS f = Inr facilitator \<and>
       dict_get (time_room_activities (build_lookups s)) (t, r) = Inr in_room \<and>
       dict_get (time_facilitator_activities (build_lookups s)) (t, f) = Inr in_slot \<and>
       dict_get (facilitator_total_activities (build_lookups s)) f = Inr (activity_count s f) \<and>
       fitness' =
         facilitator_load (length in_slot) (facilitator_preference activity facilitator
           (room_size activity room (room_conflict (length in_room) fitness))) +
         (if activity_count s f > 4 then - (1/2)
          else if activity_count s f < 3 \<and> \<not> (facilitator = ''Tyler'' \<and> activity_count s f < 2)
            then - (2/5)
          else 0))) \<and>
   calculate_fitness s =
     bind_err (map_err (evaluate_activity (build_lookups s) 0) (enumerate 0 (assignments s)))
       (\<lambda>contributions.
          bind_err (for_each (consecutive_facilitator s)
                      (facilitator_time_slots (build_lookups s)) (sum_list contributions))
            (activity_specific s))"
proof (intro conjI impI)
  assume h: "i < length (assignments s) \<and> assignments s ! i = (a, r, t, f) \<and>
    evaluate_activity (build_lookups s) fitness (i, assignments s ! i) = Inr fitness'"
  let ?L = "build_lookups s"
  from h have h1: "i < length (assignments s)" and h2: "assignments s ! i = (a, r, t, f)"
    and h3: "evaluate_activity ?L fitness (i, assignments s ! i) = Inr fitness'"
    by blast+
  have ev: "evaluate_activity ?L fitness (i, a, r, t, f) = Inr fitness'"
    using h3 unfolding h2 .
  have "assignments s ! i \<in> set (filter (\<lambda>g. facilitator_of g = f) (assignments s))"
    using h1 h2 nth_mem [of i "assignments s"] by (simp add: facilitator_of_def)
  then have "filter (\<lambda>g. facilitator_of g = f) (assignments s) \<noteq> []"
    by force
  then have "activity_count s f \<noteq> 0"
    by (simp add: activity_count_def)
  then have total: "dict_get (facilitator_total_activities ?L) f = Inr (activity_count s f)"
    by (simp add: total_build_lookups dict_get_def)
  from ev obtain activity room facilitator in_room in_slot total_load where
    "py_index ACTIVITIES (int i) = Inr activity"
    "py_index ROOMS r = Inr room"
    "py_index FACILITATORS f = Inr facilitator"
    "dict_get (time_room_activities ?L) (t, r) = Inr in_room"
    "dict_get (time_facilitator_activities ?L) (t, f) = Inr in_slot"
    "dict_get (facilitator_total_activities ?L) f = Inr total_load"
    "fitness' = facilitator_total_load facilitator total_load
       (facilitator_load (length in_slot) (facilitator_preference activity facilitator
          (room_size activity room (room_conflict (length in_room) fitness))))"
    unfolding evaluate_activity_def
    by (auto elim!: bind_err_InrE)
  moreover from this total have "total_load = activity_count s f"
    by simp
  ultimately show "\<exists>activity room facilitator in_room in_slot.
       py_index ACTIVITIES (int i) = Inr activity \<and>
       py_index ROOMS r = Inr room \<and>
       py_index FACILITATORS f = Inr facilitator \<and>
       dict_get (time_room_activities ?L) (t, r) = Inr in_room \<and>
       dict_get (time_facilitator_activities ?L) (t, f) = Inr in_slot \<and>
       dict_get (facilitator_total_activities ?L) f = Inr (activity_count s f) \<and>
       fitness' =
         facilitator_load (length in_slot) (facilitator_preference activity facilitator
           (room_size activity room (room_conflict (length in_room) fitness))) +
         (if activity_count s f > 4 then - (1/2)
          else if activity_count s f < 3 \<and> \<not> (facilitator = ''Tyler'' \<and> activity_count s f < 2)
            then - (2/5)
          else 0)"
    by (intro exI [of _ activity] exI [of _ room] exI [of _ facilitator] exI [of _ in_room]
        exI [of _ in_slot]) (simp add: facilitator_total_load_def)
next
  show "calculate_fitness s =
     bind_err (map_err (evaluate_activity (build_lookups s) 0) (enumerate 0 (assignments s)))
       (\<lambda>contributions.
          bind_err (for_each (consecutive_facilitator s)
                      (facilitator_time_slots (build_lookups s)) (sum_list contributions))
            (activity_specific s))"
    unfolding calculate_fitness_def Let_def activity_loop_sum
    by (cases "map_err (evaluate_activity (build_lookups s) 0) (enumerate 0 (assignments s))")
      simp_all
qed

lemma tyler_once_first:
  "0 < length (assignments tyler_once) \<and> assignments tyler_once ! 0 = (0, 0, 0, 7) \<and>
   evaluate_activity (build_lookups tyler_once) 0 (0, assignments tyler_once ! 0) =
     Inr (- (2/5))"
  by code_simp

theorem facilitator_total_load_rule_witness:
  "0 < length (assignments tyler_once) \<and> assignments tyler_once ! 0 = (0, 0, 0, 7) \<and>
   evaluate_activity (build_lookups tyler_once) 0 (0, assignments tyler_once ! 0) =
     Inr (- (2/5)) \<and>
   py_index FACILITATORS 7 = Inr ''Tyler'' \<and>
   dict_get (facilitator_total_activities (build_lookups tyler_once)) 7 =
     Inr (activity_count tyler_once 7) \<and>
   activity_count tyler_once 7 = 1"
  using facilitator_total_load_rule [of 0 tyler_once 0 0 0 7 0 "- (2/5)"] tyler_once_first
  by (auto simp add: py_index_def FACILITATORS_def activity_count_def tyler_once_def
      facilitator_of_def)

text \<open>
  Claim C1 as stated (no penalty for Tyler with a total of at least 2, and the penalty
  below that) fails. The first activity has Tyler, facilitator 7, in both schedules, and the
  four rules before the total-load rule add -0.4 to it in both. In \<open>tyler_twice\<close> Tyler has
  two activities and the activity contributes -0.8: the rule subtracted 0.4. In
  \<open>tyler_once\<close> he has one and the activity contributes -0.4: the rule subtracted nothing.
\<close>

theorem tyler_exception_counterexample:
  "py_index FACILITATORS 7 = Inr ''Tyler'' \<and>
   assignments tyler_twice ! 0 = (0, 0, 0, 7) \<and>
   assignments tyler_once ! 0 = (0, 0, 0, 7) \<and>
   facilitator_load 1 (facilitator_preference (ACTIVITIES ! 0) ''Tyler''
     (room_size (ACTIVITIES ! 0) (ROOMS ! 0) (room_conflict 1 0))) = - (2/5) \<and>
   activity_count tyler_twice 7 = 2 \<and>
   evaluate_activity (build_lookups tyler_twice) 0 (0, assignments tyler_twice ! 0) =
     Inr (- (4/5)) \<and>
   activity_count tyler_once 7 = 1 \<and>
   evaluate_activity (build_lookups tyler_once) 0 (0, assignments tyler_once ! 0) =
     Inr (- (2/5)) \<and>
   calculate_fitness tyler_twice = Inr (37/10) \<and>
   calculate_fitness tyler_once = Inr (47/10)"
  by code_simp


section \<open>The stored activity index is never read\<close>

lemma enumerate_forget:
  "enumerate n (map forget_first xs) = map (\<lambda>(i, g). (i, forget_first g)) (enumerate n xs)"
  by (induction xs arbitrary: n) simp_all

lemma foldl_forget:
  assumes "\<And>L i g. step L (i, forget_first g) = step L (i, g)"
  shows "foldl step L (enumerate n (map forget_first xs)) = foldl step L (enumerate n xs)"
  using assms by (induction xs arbitrary: n L) simp_all

lemma for_each_forget:
  assumes "\<And>a i g. body a (i, forget_first g) = body a (i, g)"
  shows "for_each body (enumerate n (map forget_first xs)) a = for_each body (enumerate n xs) a"
  using assms
proof (induction xs arbitrary: n a)
  case Nil
  then show ?case by simp
next
  case (Cons x xs)
  then show ?case by (cases "body a (n, x)") simp_all
qed

lemma build_lookups_forget: "build_lookups (forget_activity_idx s) = build_lookups s"
  unfolding build_lookups_def forget_activity_idx_def
  by (simp, rule foldl_forget) (simp add: build_step_def forget_first_def split: prod.splits)

lemma evaluate_loop_forget:
  "for_each (evaluate_activity L) (enumerate 0 (assignments (forget_activity_idx s))) a =
   for_each (evaluate_activity L) (enumerate 0 (assignments s)) a"
  unfolding forget_activity_idx_def
  by (simp, rule for_each_forget) (simp add: evaluate_activity_def forget_first_def split: prod.splits)

lemma filter_enumerate_forget:
  assumes "\<And>i g. P (i, forget_first g) = P (i, g)"
  shows "map fst (filter P (enumerate n (map forget_first xs))) = map fst (filter P (enumerate n xs))"
  using assms by (induction xs arbitrary: n) simp_all

lemma activities_at_forget: "activities_at (forget_activity_idx s) = activities_at s"
  unfolding activities_at_def forget_activity_idx_def
  by (intro ext, simp, rule filter_enumerate_forget) (simp add: forget_first_def split: prod.splits)

lemma py_index_forget:
  "py_index (map forget_first xs) i = map_sum (\<lambda>e. e) forget_first (py_index xs i)"
  by (auto simp: py_index_def)

lemma room_of_forget: "room_of (forget_activity_idx s) = room_of s"
proof (rule ext)
  fix i
  show "room_of (forget_activity_idx s) i = room_of s i"
    by (cases "py_index (assignments s) i")
      (simp_all add: room_of_def forget_activity_idx_def py_index_forget forget_first_def
        split: prod.splits)
qed

lemma time_of_forget: "time_of (forget_activity_idx s) = time_of s"
proof (rule ext)
  fix i
  show "time_of (forget_activity_idx s) i = time_of s i"
    by (cases "py_index (assignments s) i")
      (simp_all add: time_of_def forget_activity_idx_def py_index_forget forget_first_def
        split: prod.splits)
qed

lemma building_pair_forget: "building_pair (forget_activity_idx s) = building_pair s"
  by (intro ext) (simp add: building_pair_def room_of_forget)

lemma consecutive_slot_forget: "consecutive_slot (forget_activity_idx s) = consecutive_slot s"
  by (intro ext) (simp add: consecutive_slot_def building_pair_forget activities_at_forget)

lemma consecutive_facilitator_forget:
  "consecutive_facilitator (forget_activity_idx s) = consecutive_facilitator s"
  by (intro ext) (simp add: consecutive_facilitator_def consecutive_slot_forget)

lemma activity_specific_forget: "activity_specific (forget_activity_idx s) = activity_specific s"
  by (intro ext) (simp add: activity_specific_def room_of_forget time_of_forget)

lemma calculate_fitness_forget: "calculate_fitness (forget_activity_idx s) = calculate_fitness s"
  by (simp add: calculate_fitness_def build_lookups_forget evaluate_loop_forget
      consecutive_facilitator_forget activity_specific_forget)

lemma forget_activity_idx_eq:
  assumes "map snd (assignments s1) = map snd (assignments s2)"
  shows "forget_activity_idx s1 = forget_activity_idx s2"
proof -
  have ff: "forget_first = Pair 0 \<circ> snd"
    by (rule ext) (simp add: forget_first_def)
  have "map forget_first (assignments s1) = map (Pair 0) (map snd (assignments s1))"
    unfolding ff by simp
  also have "\<dots> = map (Pair 0) (map snd (assignments s2))"
    by (simp only: assms)
  also have "\<dots> = map forget_first (assignments s2)"
    unfolding ff by simp
  finally show ?thesis by (simp add: forget_activity_idx_def)
qed

text \<open>
  Claim C10. Two schedules whose tuples agree on room, time and facilitator at every position
  have the same fitness (or raise the same exception), whatever their first components are.
\<close>

theorem fitness_ignores_first_component:
  assumes "map snd (assignments s1) = map snd (assignments s2)"
  shows "calculate_fitness s1 = calculate_fitness s2"
proof -
  have "calculate_fitness s1 = calculate_fitness (forget_activity_idx s1)"
    by (simp only: calculate_fitness_forget)
  also have "\<dots> = calculate_fitness (forget_activity_idx s2)"
    using forget_activity_idx_eq [OF assms] by simp
  also have "\<dots> = calculate_fitness s2"
    by (simp only: calculate_fitness_forget)
  finally show ?thesis .
qed

theorem fitness_ignores_first_component_witness:
  "map snd (assignments tyler_twice) = map snd (assignments relabelled) \<and>
   assignments tyler_twice \<noteq> assignments relabelled \<and>
   calculate_fitness tyler_twice = calculate_fitness relabelled"
  using fitness_ignores_first_component [of tyler_twice relabelled]
  by (simp add: tyler_twice_def relabelled_def)

section \<open>The chromosome invariant\<close>

lemma for_each_invariant:
  assumes "I s" and "\<And>s x. I s \<Longrightarrow> x \<in> set xs \<Longrightarrow> \<exists>s'. body s x = Inr s' \<and> I s'"
  shows "\<exists>s'. for_each body xs s = Inr s' \<and> I s'"
  using assms
proof (induction xs arbitrary: s)
  case Nil
  then show ?case by simp
next
  case (Cons x xs)
  from Cons.prems obtain s1 where s1: "body s x = Inr s1" "I s1"
    by (meson list.set_intros(1))
  have "\<exists>s'. for_each body xs s1 = Inr s' \<and> I s'"
    using Cons.IH [OF s1(2)] Cons.prems(2) by (meson list.set_intros(2))
  then show ?case using s1 by simp
qed

lemma rng_integers_ok:
  assumes "low < high"
  shows "\<exists>x g'. rng_integers low high g = Inr (x, g') \<and> low \<le> x \<and> x < high"
proof -
  from assms have "0 < nat (high - low)" by simp
  then have "g 0 mod nat (high - low) < nat (high - low)" by simp
  then have "int (g 0 mod nat (high - low)) < high - low" using assms by linarith
  then show ?thesis using assms by (simp add: rng_integers_def)
qed

lemma catalog_sizes:
  "length ACTIVITIES = 11" "length ROOMS = 9" "length TIMES = 6" "length FACILITATORS = 10"
  by (simp_all add: ACTIVITIES_def ROOMS_def TIMES_def FACILITATORS_def)

lemma list_all_update:
  assumes "list_all P xs" and "P v"
  shows "list_all P (xs[i := v])"
proof -
  have "set (xs[i := v]) \<subseteq> insert v (set xs)"
    by (rule set_update_subset_insert)
  then show ?thesis using assms by (auto simp: list_all_iff)
qed

lemma random_assignment_ok:
  assumes "genes_ok st" and "i < length ACTIVITIES"
  shows "\<exists>st'. random_assignment st i = Inr st' \<and> genes_ok st'"
proof -
  obtain genes g where st: "st = (genes, g)" by (cases st)
  obtain r g1 where r: "rng_integers 0 (int (length ROOMS)) g = Inr (r, g1)" "0 \<le> r" "r < int (length ROOMS)"
    using rng_integers_ok [of 0 "int (length ROOMS)" g] by (auto simp: catalog_sizes)
  obtain t g2 where t: "rng_integers 0 (int (length TIMES)) g1 = Inr (t, g2)" "0 \<le> t" "t < int (length TIMES)"
    using rng_integers_ok [of 0 "int (length TIMES)" g1] by (auto simp: catalog_sizes)
  obtain f g3 where f: "rng_integers 0 (int (length FACILITATORS)) g2 = Inr (f, g3)" "0 \<le> f" "f < int (length FACILITATORS)"
    using rng_integers_ok [of 0 "int (length FACILITATORS)" g2] by (auto simp: catalog_sizes)
  have "gene_in_bounds (int i, r, t, f)"
    using r t f by (simp add: gene_in_bounds_def)
  then show ?thesis
    using assms r(1) t(1) f(1)
    by (simp add: random_assignment_def st genes_ok_def py_set_def list_all_update)
qed

lemma create_random_schedule_ok:
  "\<exists>s g'. create_random_schedule g = Inr (s, g') \<and> well_formed s"
proof -
  have init: "genes_ok (replicate (length ACTIVITIES) (0, 0, 0, 0), g)"
    by (simp add: genes_ok_def list_all_iff gene_in_bounds_def catalog_sizes)
  have step: "\<And>st x. genes_ok st \<Longrightarrow> x \<in> set [0 ..< length ACTIVITIES] \<Longrightarrow>
      \<exists>st'. random_assignment st x = Inr st' \<and> genes_ok st'"
    using random_assignment_ok by simp
  obtain st' where st': "for_each random_assignment [0 ..< length ACTIVITIES]
        (replicate (length ACTIVITIES) (0, 0, 0, 0), g) = Inr st'" "genes_ok st'"
    using for_each_invariant [where I = genes_ok and body = random_assignment
        and xs = "[0 ..< length ACTIVITIES]"
        and s = "(replicate (length ACTIVITIES) (0, 0, 0, 0), g)", OF init step]
    by blast
  then show ?thesis
    by (cases st') (simp add: create_random_schedule_def genes_ok_def well_formed_def)
qed

lemma resample_field_ok:
  assumes "gene_in_bounds gene"
  shows "\<exists>gene' g'. resample_field mt gene g = Inr (gene', g') \<and> gene_in_bounds gene'"
proof -
  obtain a r t f where gene: "gene = (a, r, t, f)" by (cases gene) auto
  obtain r' g1 where r: "rng_integers 0 (int (length ROOMS)) g = Inr (r', g1)" "0 \<le> r'" "r' < int (length ROOMS)"
    using rng_integers_ok [of 0 "int (length ROOMS)" g] by (auto simp: catalog_sizes)
  obtain t' g2 where t: "rng_integers 0 (int (length TIMES)) g = Inr (t', g2)" "0 \<le> t'" "t' < int (length TIMES)"
    using rng_integers_ok [of 0 "int (length TIMES)" g] by (auto simp: catalog_sizes)
  obtain f' g3 where f: "rng_integers 0 (int (length FACILITATORS)) g = Inr (f', g3)" "0 \<le> f'" "f' < int (length FACILITATORS)"
    using rng_integers_ok [of 0 "int (length FACILITATORS)" g] by (auto simp: catalog_sizes)
  show ?thesis
    using assms r t f by (simp add: resample_field_def gene gene_in_bounds_def)
qed

lemma py_index_nat: "i < length xs \<Longrightarrow> py_index xs (int i) = Inr (xs ! i)"
  by (simp add: py_index_def)

lemma mutate_gene_ok:
  assumes "genes_ok st" and "i < length (fst st)"
  shows "\<exists>st'. mutate_gene rate st i = Inr st' \<and> genes_ok st' \<and> length (fst st') = length (fst st)"
proof -
  obtain genes g where st: "st = (genes, g)" by (cases st)
  obtain u g1 where u: "rng_random g = (u, g1)" by (cases "rng_random g")
  show ?thesis
  proof (cases "u < rate")
    case False
    then show ?thesis using assms u by (simp add: mutate_gene_def st genes_ok_def)
  next
    case True
    obtain mt g2 where mt: "rng_integers 0 3 g1 = Inr (mt, g2)"
      using rng_integers_ok [of 0 3 g1] by auto
    have "gene_in_bounds (genes ! i)"
      using assms by (simp add: st genes_ok_def list_all_length)
    then obtain gene' g3 where gn: "resample_field mt (genes ! i) g2 = Inr (gene', g3)"
        "gene_in_bounds gene'"
      using resample_field_ok by blast
    show ?thesis
      using assms u True mt gn
      by (simp add: mutate_gene_def st py_index_nat py_set_def genes_ok_def list_all_update)
  qed
qed

lemma mutate_ok:
  assumes "well_formed s"
  shows "\<exists>s' g'. mutate s rate g = Inr (s', g') \<and> well_formed s'"
proof -
  let ?I = "\<lambda>st. genes_ok st \<and> length (fst st) = length (assignments s)"
  have "?I (assignments s, g)"
    using assms by (simp add: genes_ok_def well_formed_def)
  moreover have "\<exists>st'. mutate_gene rate st x = Inr st' \<and> ?I st'"
    if "?I st" "x \<in> set [0 ..< length (assignments s)]" for st x
    using mutate_gene_ok [of st x rate] that by auto
  ultimately obtain st' where st': "for_each (mutate_gene rate) [0 ..< length (assignments s)]
        (assignments s, g) = Inr st'" "?I st'"
    using for_each_invariant [where I = ?I and body = "mutate_gene rate"
        and xs = "[0 ..< length (assignments s)]" and s = "(assignments s, g)"]
    by blast
  then show ?thesis
    by (cases st') (simp add: mutate_def genes_ok_def well_formed_def)
qed

lemma crossover_at_ok:
  assumes "well_formed p1" and "well_formed p2" and "k \<le> length ACTIVITIES"
  shows "well_formed (fst (crossover_at k p1 p2)) \<and> well_formed (snd (crossover_at k p1 p2))"
proof -
  have t: "list_all P (take k xs)" if "list_all P xs" for P :: "gene \<Rightarrow> bool" and xs
    using that by (auto simp: list_all_iff dest: in_set_takeD)
  have d: "list_all P (drop k xs)" if "list_all P xs" for P :: "gene \<Rightarrow> bool" and xs
    using that by (auto simp: list_all_iff dest: in_set_dropD)
  show ?thesis
    using assms by (simp add: crossover_at_def well_formed_def t d)
qed

lemma crossover_ok:
  assumes "well_formed p1" and "well_formed p2"
  shows "\<exists>c1 c2 g'. crossover p1 p2 g = Inr ((c1, c2), g') \<and> well_formed c1 \<and> well_formed c2"
proof -
  obtain k g1 where k: "rng_integers 1 (int (length ACTIVITIES)) g = Inr (k, g1)"
      "1 \<le> k" "k < int (length ACTIVITIES)"
    using rng_integers_ok [of 1 "int (length ACTIVITIES)" g] by (auto simp: catalog_sizes)
  then have "nat k \<le> length ACTIVITIES" by simp
  from crossover_at_ok [OF assms this] show ?thesis
    using k(1) by (cases "crossover_at (nat k) p1 p2") (simp add: crossover_def)
qed

text \<open>
  Claim C4. Random initialisation returns a chromosome with one gene per activity and every
  index inside its catalog; crossover of two such chromosomes and mutation of one return such
  chromosomes again. None of the three raises on such inputs.
\<close>

theorem operators_keep_well_formed:
  "(\<exists>s g'. create_random_schedule g = Inr (s, g') \<and> well_formed s) \<and>
   (well_formed p1 \<and> well_formed p2 \<longrightarrow>
      (\<exists>c1 c2 g'. crossover p1 p2 g = Inr ((c1, c2), g') \<and> well_formed c1 \<and> well_formed c2)) \<and>
   (well_formed s0 \<longrightarrow> (\<exists>s' g'. mutate s0 rate g = Inr (s', g') \<and> well_formed s'))"
  using create_random_schedule_ok crossover_ok mutate_ok by blast

theorem operators_keep_well_formed_witness:
  "well_formed tyler_twice \<and> well_formed relabelled \<and>
   (\<exists>s g'. create_random_schedule (\<lambda>n. 7 * n + 3) = Inr (s, g') \<and> well_formed s) \<and>
   (\<exists>c1 c2 g'. crossover tyler_twice relabelled (\<lambda>n. 7 * n + 3) = Inr ((c1, c2), g') \<and>
       well_formed c1 \<and> well_formed c2) \<and>
   (\<exists>s' g'. mutate tyler_twice (1/2) (\<lambda>n. 7 * n + 3) = Inr (s', g') \<and> well_formed s')"
proof -
  have a: "well_formed tyler_twice"
    by (simp add: well_formed_def tyler_twice_def gene_in_bounds_def catalog_sizes)
  have b: "well_formed relabelled"
    by (simp add: well_formed_def relabelled_def gene_in_bounds_def catalog_sizes)
  show ?thesis
    using a b operators_keep_well_formed [of "\<lambda>n. 7 * n + 3" tyler_twice relabelled tyler_twice "1/2"] by blast
qed

section \<open>Tournament selection\<close>

lemma draw_distinct_sample:
  assumes "distinct pool" and "k \<le> length pool" and "draw_distinct pool k g = (xs, g')"
  shows "distinct xs \<and> set xs \<subseteq> set pool \<and> length xs = k"
  using assms
proof (induction k arbitrary: pool g xs g')
  case 0
  then show ?case by simp
next
  case (Suc k)
  let ?x = "pool ! (g 0 mod length pool)"
  from Suc.prems have ne: "pool \<noteq> []" by auto
  then have x_in: "?x \<in> set pool" by simp
  obtain rest g1 where rest: "draw_distinct (remove1 ?x pool) k (rng_tail g) = (rest, g1)"
    by (cases "draw_distinct (remove1 ?x pool) k (rng_tail g)")
  have d: "distinct (remove1 ?x pool)" using Suc.prems(1) by simp
  have l: "k \<le> length (remove1 ?x pool)"
    using Suc.prems(2) x_in by (simp add: length_remove1)
  from Suc.IH [OF d l rest]
  have ih: "distinct rest" "set rest \<subseteq> set (remove1 ?x pool)" "length rest = k" by auto
  have "set (remove1 ?x pool) = set pool - {?x}"
    using Suc.prems(1) by simp
  then have "?x \<notin> set rest" "set rest \<subseteq> set pool" using ih(2) by auto
  moreover have "xs = ?x # rest"
    using Suc.prems(3) ne rest by (simp add: Let_def)
  ultimately show ?case using ih x_in by simp
qed

lemma rng_choice_sample:
  assumes "rng_choice n k g = Inr (xs, g')"
  shows "distinct xs \<and> set xs \<subseteq> {..< n} \<and> length xs = k"
proof -
  from assms have k: "k \<le> n" and d: "draw_distinct [0 ..< n] k g = (xs, g')"
    by (auto simp: rng_choice_def split: if_splits)
  from draw_distinct_sample [of "[0 ..< n]" k g xs g'] k d show ?thesis by auto
qed

lemma max_from_best:
  assumes "b < length fs" and "kb = fs ! b" and "\<forall>j \<in> set rest. j < length fs"
  shows "\<exists>m. max_from fs (b, kb) rest = Inr m \<and> m \<in> insert b (set rest) \<and>
             (\<forall>j \<in> insert b (set rest). fs ! j \<le> fs ! m)"
  using assms
proof (induction rest arbitrary: b kb)
  case Nil
  then show ?case by simp
next
  case (Cons i rest)
  then have i: "i < length fs" by simp
  show ?case
  proof (cases "fs ! i > kb")
    case True
    from Cons.IH [of i "fs ! i"] i Cons.prems
    obtain m where m: "max_from fs (i, fs ! i) rest = Inr m" "m \<in> insert i (set rest)"
        "\<forall>j \<in> insert i (set rest). fs ! j \<le> fs ! m"
      by auto
    then have "fs ! b \<le> fs ! m" using True Cons.prems(2) by force
    then show ?thesis using m True i by (auto simp: py_index_nat)
  next
    case False
    from Cons.IH [of b kb] Cons.prems
    obtain m where m: "max_from fs (b, kb) rest = Inr m" "m \<in> insert b (set rest)"
        "\<forall>j \<in> insert b (set rest). fs ! j \<le> fs ! m"
      by auto
    then have "fs ! i \<le> fs ! m" using False Cons.prems(2) by force
    then show ?thesis using m False i by (auto simp: py_index_nat)
  qed
qed

lemma max_by_score_best:
  assumes "indices \<noteq> []" and "\<forall>j \<in> set indices. j < length fs"
  shows "\<exists>m. max_by_score fs indices = Inr m \<and> m \<in> set indices \<and>
             (\<forall>j \<in> set indices. fs ! j \<le> fs ! m)"
proof -
  obtain i rest where ir: "indices = i # rest" using assms(1) by (cases indices) auto
  from max_from_best [of i fs "fs ! i" rest] assms(2) ir
  show ?thesis by (auto simp: max_by_score_def py_index_nat)
qed

text \<open>
  Claim C8. Whatever subset of distinct indices is sampled (non-empty, of the tournament
  size), tournament selection returns the chromosome at an index of the sample whose score
  is at least the score at every index of the sample.
\<close>

theorem tournament_returns_best_of_sample:
  assumes "rng_choice (length pop) (TOURNAMENT_SIZE cfg) g = Inr (sample, g')"
    and "sample \<noteq> []"
    and "length fitness_scores = length pop"
  shows "distinct sample \<and> length sample = TOURNAMENT_SIZE cfg \<and>
         (\<exists>i \<in> set sample. i < length pop \<and>
            tournament_selection cfg pop fitness_scores g = Inr (pop ! i, g') \<and>
            (\<forall>j \<in> set sample. fitness_scores ! j \<le> fitness_scores ! i))"
proof -
  from rng_choice_sample [OF assms(1)]
  have s: "distinct sample" "set sample \<subseteq> {..< length pop}"
      "length sample = TOURNAMENT_SIZE cfg" by auto
  then have "\<forall>j \<in> set sample. j < length fitness_scores" using assms(3) by auto
  from max_by_score_best [OF assms(2) this]
  obtain m where m: "max_by_score fitness_scores sample = Inr m" "m \<in> set sample"
      "\<forall>j \<in> set sample. fitness_scores ! j \<le> fitness_scores ! m" by blast
  then have "m < length pop" using s(2) by auto
  then have "tournament_selection cfg pop fitness_scores g = Inr (pop ! m, g')"
    using assms(1) m(1) by (simp add: tournament_selection_def py_index_nat)
  then show ?thesis using s m \<open>m < length pop\<close> by blast
qed

lemma rng_tail_const [simp]: "rng_tail (\<lambda>n. c) = (\<lambda>n. c)"
  by (simp add: rng_tail_def)

theorem tournament_returns_best_of_sample_witness:
  "rng_choice (length four_schedules) (TOURNAMENT_SIZE small_config) (\<lambda>n. 1) =
     Inr ([1, 2], \<lambda>n. 1) \<and>
   tournament_selection small_config four_schedules [37/10, 47/10, 37/10, 37/10] (\<lambda>n. 1) =
     Inr (tyler_once, \<lambda>n. 1)"
proof -
  have c: "rng_choice (length four_schedules) (TOURNAMENT_SIZE small_config) (\<lambda>n. 1) =
      Inr ([1, 2], \<lambda>n. 1)"
    by (simp add: four_schedules_def small_config_def rng_choice_def numeral_2_eq_2 upt_rec
        Let_def)
  from tournament_returns_best_of_sample [OF c, of "[37/10, 47/10, 37/10, 37/10]"] c show ?thesis
    by (auto simp: four_schedules_def)
qed

section \<open>Mutation at rate 0 and single-point crossover\<close>

lemma rng_random_nonneg: "0 \<le> fst (rng_random g)"
  by (simp add: rng_random_def)

lemma mutate_loop_rate_zero:
  "\<exists>g'. for_each (mutate_gene 0) idxs (genes, g) = Inr (genes, g')"
proof (induction idxs arbitrary: g)
  case Nil
  then show ?case by simp
next
  case (Cons i idxs)
  obtain u g1 where u: "rng_random g = (u, g1)" by (cases "rng_random g")
  then have "\<not> u < 0" using rng_random_nonneg [of g] by simp
  then have "mutate_gene 0 (genes, g) i = Inr (genes, g1)"
    using u by (simp add: mutate_gene_def)
  then show ?case using Cons.IH [of g1] by simp
qed

lemma mutate_rate_zero: "\<exists>g'. mutate s 0 g = Inr (s, g')"
proof -
  obtain g' where "for_each (mutate_gene 0) [0 ..< length (assignments s)] (assignments s, g) =
      Inr (assignments s, g')"
    using mutate_loop_rate_zero by blast
  then show ?thesis by (auto simp: mutate_def)
qed

lemma write_list_simps [simp]:
  "list_objs (write_list l xs h) = (list_objs h)(l := xs)"
  "schedule_objs (write_list l xs h) = schedule_objs h"
  "next_ref (write_list l xs h) = next_ref h"
  by (simp_all add: write_list_def)

lemma write_list_twice: "write_list l xs (write_list l ys h) = write_list l xs h"
  by (simp add: write_list_def)

lemma write_list_same: "write_list l (list_objs h l) h = h"
  by (simp add: write_list_def)

lemma assignments_of_write_list:
  "assignments_of (write_list (schedule_objs h m) xs h) m = xs"
  by (simp add: assignments_of_def)

lemma mutate_loop_in_store:
  "for_each (mutate_gene_in_store rate m) idxs (h, g) =
     bind_err (for_each (mutate_gene rate) idxs (assignments_of h m, g)) (\<lambda>(genes, g').
       Inr (write_list (schedule_objs h m) genes h, g'))"
proof (induction idxs arbitrary: h g)
  case Nil
  then show ?case by (simp add: assignments_of_def write_list_same)
next
  case (Cons i idxs)
  show ?case
  proof (cases "mutate_gene rate (assignments_of h m, g) i")
    case (Inl e)
    then show ?thesis by (simp add: mutate_gene_in_store_def)
  next
    case (Inr r)
    obtain genes1 g1 where r: "r = (genes1, g1)" by (cases r)
    let ?h1 = "write_list (schedule_objs h m) genes1 h"
    have "for_each (mutate_gene_in_store rate m) (i # idxs) (h, g) =
          for_each (mutate_gene_in_store rate m) idxs (?h1, g1)"
      using Inr r by (simp add: mutate_gene_in_store_def)
    also have "\<dots> = bind_err (for_each (mutate_gene rate) idxs (genes1, g1)) (\<lambda>(genes, g').
       Inr (write_list (schedule_objs h m) genes h, g'))"
      by (simp only: Cons.IH [of ?h1 g1] assignments_of_write_list write_list_simps
          write_list_twice)
    finally show ?thesis using Inr r by simp
  qed
qed

lemma mutate_in_store_refines:
  assumes "schedule < next_ref h" and "schedule_objs h schedule < next_ref h"
  shows "case mutate \<lparr>assignments = assignments_of h schedule\<rparr> rate g of
           Inl e \<Rightarrow> mutate_in_store h schedule rate g = Inl e
         | Inr (s', g') \<Rightarrow>
             (\<exists>mutated h'. mutate_in_store h schedule rate g = Inr (mutated, h', g') \<and>
                assignments_of h' mutated = assignments s' \<and>
                next_ref h \<le> mutated \<and> next_ref h \<le> schedule_objs h' mutated \<and>
                unchanged_below (next_ref h) h h')"
proof -
  let ?xs = "assignments_of h schedule"
  let ?n = "next_ref h"
  show ?thesis
  proof (cases "for_each (mutate_gene rate) [0 ..< length ?xs] (?xs, g)")
    case (Inl e)
    then show ?thesis using assms
      by (simp add: mutate_def mutate_in_store_def new_Schedule_def new_list_def
          set_assignments_def assignments_of_def mutate_loop_in_store Let_def)
  next
    case (Inr r)
    obtain genes g' where r: "r = (genes, g')" by (cases r)
    show ?thesis using assms Inr r
      by (simp add: mutate_def mutate_in_store_def new_Schedule_def new_list_def
          set_assignments_def assignments_of_def mutate_loop_in_store Let_def
          unchanged_below_def)
  qed
qed


lemma unchanged_below_assignments:
  assumes "unchanged_below n h h'" and "schedule < n" and "schedule_objs h schedule < n"
  shows "assignments_of h' schedule = assignments_of h schedule"
  using assms by (simp add: unchanged_below_def assignments_of_def)

text \<open>
  Claim C9. With mutation rate 0, \<^verbatim>\<open>mutate\<close> returns a chromosome with the genes of its
  input, for every input and every sequence of random draws; the result is a new object with
  a new list, and the input object and its list are as they were.
\<close>

theorem mutate_rate_zero_is_identity:
  assumes "schedule < next_ref h" and "schedule_objs h schedule < next_ref h"
  shows "(\<exists>g'. mutate s 0 g = Inr (s, g')) \<and>
         (\<exists>mutated h' g'. mutate_in_store h schedule 0 g = Inr (mutated, h', g') \<and>
            assignments_of h' mutated = assignments_of h schedule \<and>
            mutated \<noteq> schedule \<and> schedule_objs h' mutated \<noteq> schedule_objs h schedule \<and>
            assignments_of h' schedule = assignments_of h schedule \<and>
            unchanged_below (next_ref h) h h')"
proof -
  let ?s = "\<lparr>assignments = assignments_of h schedule\<rparr>"
  obtain g' where g': "mutate ?s 0 g = Inr (?s, g')"
    using mutate_rate_zero by blast
  from mutate_in_store_refines [OF assms, of 0 g] g'
  obtain mutated h' where m: "mutate_in_store h schedule 0 g = Inr (mutated, h', g')"
      "assignments_of h' mutated = assignments_of h schedule"
      "next_ref h \<le> mutated" "next_ref h \<le> schedule_objs h' mutated"
      "unchanged_below (next_ref h) h h'"
    by auto
  have "assignments_of h' schedule = assignments_of h schedule"
    using unchanged_below_assignments [OF m(5) assms] .
  moreover have "mutated \<noteq> schedule" "schedule_objs h' mutated \<noteq> schedule_objs h schedule"
    using m(3,4) assms by auto
  ultimately show ?thesis using m mutate_rate_zero [of s g] by blast
qed

theorem mutate_rate_zero_is_identity_witness:
  "(2::nat) < next_ref two_parents \<and> schedule_objs two_parents 2 < next_ref two_parents \<and>
   assignments_of two_parents 2 = assignments tyler_twice \<and>
   (\<exists>g'. mutate tyler_twice 0 (\<lambda>n. n) = Inr (tyler_twice, g')) \<and>
   (\<exists>mutated h' g'. mutate_in_store two_parents 2 0 (\<lambda>n. n) = Inr (mutated, h', g') \<and>
      assignments_of h' mutated = assignments tyler_twice \<and> mutated \<noteq> 2 \<and>
      assignments_of h' 2 = assignments tyler_twice)"
proof -
  have a: "(2::nat) < next_ref two_parents" "schedule_objs two_parents 2 < next_ref two_parents"
    by (simp_all add: two_parents_def)
  have b: "assignments_of two_parents 2 = assignments tyler_twice"
    by (simp add: two_parents_def assignments_of_def)
  from mutate_rate_zero_is_identity [OF a, of tyler_twice "\<lambda>n. n"] a b show ?thesis
    by auto
qed

lemma rng_integers_range:
  assumes "rng_integers low high g = Inr (x, g')"
  shows "low \<le> x \<and> x < high"
proof -
  from assms have lh: "low < high" and x: "x = low + int (g 0 mod nat (high - low))"
    by (auto simp: rng_integers_def split: if_splits)
  from lh have "g 0 mod nat (high - low) < nat (high - low)" by simp
  then show ?thesis using x lh by linarith
qed

lemma crossover_at_slices:
  assumes "k \<le> length (assignments p1)" and "k \<le> length (assignments p2)"
  shows "take k (assignments (fst (crossover_at k p1 p2))) = take k (assignments p1)"
    and "drop k (assignments (fst (crossover_at k p1 p2))) = drop k (assignments p2)"
    and "take k (assignments (snd (crossover_at k p1 p2))) = take k (assignments p2)"
    and "drop k (assignments (snd (crossover_at k p1 p2))) = drop k (assignments p1)"
  using assms by (simp_all add: crossover_at_def)

lemma crossover_in_store_refines:
  assumes "rng_integers 1 (int (length ACTIVITIES)) g = Inr (k, g')"
    and "parent1 < next_ref h" and "schedule_objs h parent1 < next_ref h"
    and "parent2 < next_ref h" and "schedule_objs h parent2 < next_ref h"
  shows "\<exists>child1 child2 h'.
           crossover_in_store h parent1 parent2 g = Inr ((child1, child2), h', g') \<and>
           (\<lparr>assignments = assignments_of h' child1\<rparr>, \<lparr>assignments = assignments_of h' child2\<rparr>) =
             crossover_at (nat k) \<lparr>assignments = assignments_of h parent1\<rparr>
               \<lparr>assignments = assignments_of h parent2\<rparr> \<and>
           next_ref h \<le> child1 \<and> next_ref h \<le> child2 \<and> child1 \<noteq> child2 \<and>
           unchanged_below (next_ref h) h h'"
  using assms
  by (simp add: crossover_in_store_def new_Schedule_def new_list_def set_assignments_def
      assignments_of_def crossover_at_def unchanged_below_def)

text \<open>
  Claim C5. For parents with one gene per activity and the split point \<open>k\<close> that is drawn
  (\<open>1 \<le> k \<le> N - 1\<close>), the first child has the first \<open>k\<close> genes of parent 1 and the
  genes from \<open>k\<close> on of parent 2, the second child the complementary combination; the
  children are new objects and both parents are as they were.
\<close>

theorem crossover_single_point:
  assumes "rng_integers 1 (int (length ACTIVITIES)) g = Inr (k, g')"
    and "length (assignments_of h parent1) = length ACTIVITIES"
    and "length (assignments_of h parent2) = length ACTIVITIES"
    and "parent1 < next_ref h" and "schedule_objs h parent1 < next_ref h"
    and "parent2 < next_ref h" and "schedule_objs h parent2 < next_ref h"
  shows "1 \<le> k \<and> k < int (length ACTIVITIES) \<and>
         (\<exists>child1 child2 h'.
            crossover_in_store h parent1 parent2 g = Inr ((child1, child2), h', g') \<and>
            crossover \<lparr>assignments = assignments_of h parent1\<rparr>
                \<lparr>assignments = assignments_of h parent2\<rparr> g =
              Inr ((\<lparr>assignments = assignments_of h' child1\<rparr>,
                    \<lparr>assignments = assignments_of h' child2\<rparr>), g') \<and>
            take (nat k) (assignments_of h' child1) = take (nat k) (assignments_of h parent1) \<and>
            drop (nat k) (assignments_of h' child1) = drop (nat k) (assignments_of h parent2) \<and>
            take (nat k) (assignments_of h' child2) = take (nat k) (assignments_of h parent2) \<and>
            drop (nat k) (assignments_of h' child2) = drop (nat k) (assignments_of h parent1) \<and>
            assignments_of h' parent1 = assignments_of h parent1 \<and>
            assignments_of h' parent2 = assignments_of h parent2 \<and>
            unchanged_below (next_ref h) h h')"
proof -
  let ?p1 = "\<lparr>assignments = assignments_of h parent1\<rparr>"
  let ?p2 = "\<lparr>assignments = assignments_of h parent2\<rparr>"
  from rng_integers_range [OF assms(1)] have k: "1 \<le> k" "k < int (length ACTIVITIES)" by auto
  then have kl: "nat k \<le> length (assignments ?p1)" "nat k \<le> length (assignments ?p2)"
    using assms(2,3) by simp_all
  from crossover_in_store_refines [OF assms(1,4,5,6,7)]
  obtain child1 child2 h' where c:
      "crossover_in_store h parent1 parent2 g = Inr ((child1, child2), h', g')"
      "(\<lparr>assignments = assignments_of h' child1\<rparr>, \<lparr>assignments = assignments_of h' child2\<rparr>) =
         crossover_at (nat k) ?p1 ?p2"
      "unchanged_below (next_ref h) h h'"
    by blast
  have v: "crossover ?p1 ?p2 g =
      Inr ((\<lparr>assignments = assignments_of h' child1\<rparr>, \<lparr>assignments = assignments_of h' child2\<rparr>), g')"
    using assms(1) c(2) by (simp add: crossover_def)
  have c1: "assignments_of h' child1 = assignments (fst (crossover_at (nat k) ?p1 ?p2))"
    and c2: "assignments_of h' child2 = assignments (snd (crossover_at (nat k) ?p1 ?p2))"
    using c(2) [symmetric] by simp_all
  have sl: "take (nat k) (assignments_of h' child1) = take (nat k) (assignments_of h parent1)"
      "drop (nat k) (assignments_of h' child1) = drop (nat k) (assignments_of h parent2)"
      "take (nat k) (assignments_of h' child2) = take (nat k) (assignments_of h parent2)"
      "drop (nat k) (assignments_of h' child2) = drop (nat k) (assignments_of h parent1)"
    using crossover_at_slices [OF kl] unfolding c1 c2 by simp_all
  have un: "assignments_of h' parent1 = assignments_of h parent1"
      "assignments_of h' parent2 = assignments_of h parent2"
    using unchanged_below_assignments [OF c(3)] assms(4,5,6,7) by simp_all
  show ?thesis using k c(1,3) v sl un by blast
qed

theorem crossover_single_point_witness:
  "rng_integers 1 (int (length ACTIVITIES)) (\<lambda>n. 3) = Inr (4, \<lambda>n. 3) \<and>
   assignments_of two_parents 2 = assignments tyler_twice \<and>
   assignments_of two_parents 3 = assignments tyler_once \<and>
   next_ref two_parents = 4 \<and>
   (\<exists>child1 child2 h'.
      crossover_in_store two_parents 2 3 (\<lambda>n. 3) = Inr ((child1, child2), h', \<lambda>n. 3) \<and>
      take 4 (assignments_of h' child1) = take 4 (assignments tyler_twice) \<and>
      drop 4 (assignments_of h' child1) = drop 4 (assignments tyler_once) \<and>
      take 4 (assignments_of h' child2) = take 4 (assignments tyler_once) \<and>
      drop 4 (assignments_of h' child2) = drop 4 (assignments tyler_twice) \<and>
      assignments_of h' 2 = assignments tyler_twice \<and>
      assignments_of h' 3 = assignments tyler_once)"
proof -
  have r: "rng_integers 1 (int (length ACTIVITIES)) (\<lambda>n. 3) = Inr (4, \<lambda>n. 3)"
    by (simp add: rng_integers_def ACTIVITIES_def rng_tail_def)
  have a: "assignments_of two_parents 2 = assignments tyler_twice"
      "assignments_of two_parents 3 = assignments tyler_once"
    by (simp_all add: two_parents_def assignments_of_def)
  have l: "length (assignments_of two_parents 2) = length ACTIVITIES"
      "length (assignments_of two_parents 3) = length ACTIVITIES"
    unfolding a by (simp_all add: tyler_twice_def tyler_once_def ACTIVITIES_def)
  have n: "2 < next_ref two_parents" "schedule_objs two_parents 2 < next_ref two_parents"
      "3 < next_ref two_parents" "schedule_objs two_parents 3 < next_ref two_parents"
      "next_ref two_parents = 4"
    by (simp_all add: two_parents_def)
  from crossover_single_point [OF r l n(1,2,3,4)] r a n(5) show ?thesis
    by (auto simp: nat_numeral)
qed

section \<open>The fitness evaluator does not raise on a well-formed chromosome\<close>

lemma py_index_in_bounds:
  "0 \<le> i \<Longrightarrow> i < int (length xs) \<Longrightarrow> py_index xs i = Inr (xs ! nat i)"
  by (simp add: py_index_def)

lemma for_each_total:
  assumes "\<And>s x. x \<in> set xs \<Longrightarrow> \<exists>s'. body s x = Inr s'"
  shows "\<exists>s'. for_each body xs s = Inr s'"
  using for_each_invariant [where I = "\<lambda>s. True" and body = body and xs = xs and s = s] assms
  by simp

lemma append_at_keys: "append_at d k i k' \<noteq> None \<longleftrightarrow> k' = k \<or> d k' \<noteq> None"
  by (simp add: append_at_def)

lemma build_step_room_keys:
  "time_room_activities (build_step L (n, gene)) k \<noteq> None \<longleftrightarrow>
     k = room_key gene \<or> time_room_activities L k \<noteq> None"
  by (cases gene) (auto simp: build_step_def room_key_def append_at_def)

lemma build_step_facilitator_keys:
  "time_facilitator_activities (build_step L (n, gene)) k \<noteq> None \<longleftrightarrow>
     k = facilitator_key gene \<or> time_facilitator_activities L k \<noteq> None"
  by (cases gene) (auto simp: build_step_def facilitator_key_def append_at_def)

lemma foldl_room_keys:
  "time_room_activities (foldl build_step L (enumerate n xs)) k \<noteq> None \<longleftrightarrow>
     k \<in> room_key ` set xs \<or> time_room_activities L k \<noteq> None"
proof (induction xs arbitrary: L n)
  case Nil
  then show ?case by simp
next
  case (Cons x xs)
  show ?case
    unfolding enumerate_simps foldl_Cons Cons.IH build_step_room_keys by auto
qed

lemma foldl_facilitator_keys:
  "time_facilitator_activities (foldl build_step L (enumerate n xs)) k \<noteq> None \<longleftrightarrow>
     k \<in> facilitator_key ` set xs \<or> time_facilitator_activities L k \<noteq> None"
proof (induction xs arbitrary: L n)
  case Nil
  then show ?case by simp
next
  case (Cons x xs)
  show ?case
    unfolding enumerate_simps foldl_Cons Cons.IH build_step_facilitator_keys by auto
qed

lemma lookups_present:
  assumes "gene \<in> set (assignments s)"
  shows "\<exists>in_room. dict_get (time_room_activities (build_lookups s)) (room_key gene) = Inr in_room"
    and "\<exists>in_slot. dict_get (time_facilitator_activities (build_lookups s)) (facilitator_key gene) = Inr in_slot"
    and "\<exists>total. dict_get (facilitator_total_activities (build_lookups s)) (facilitator_of gene) = Inr total"
proof -
  have "time_room_activities (build_lookups s) (room_key gene) \<noteq> None"
    unfolding build_lookups_def foldl_room_keys using assms by simp
  then show "\<exists>in_room. dict_get (time_room_activities (build_lookups s)) (room_key gene) = Inr in_room"
    by (auto simp: dict_get_def)
  have "time_facilitator_activities (build_lookups s) (facilitator_key gene) \<noteq> None"
    unfolding build_lookups_def foldl_facilitator_keys using assms by simp
  then show "\<exists>in_slot. dict_get (time_facilitator_activities (build_lookups s)) (facilitator_key gene) = Inr in_slot"
    by (auto simp: dict_get_def)
  have "filter (\<lambda>g. facilitator_of g = facilitator_of gene) (assignments s) \<noteq> []"
    using assms by (auto simp: filter_empty_conv)
  then have "activity_count s (facilitator_of gene) \<noteq> 0"
    by (simp add: activity_count_def)
  then show "\<exists>total. dict_get (facilitator_total_activities (build_lookups s)) (facilitator_of gene) = Inr total"
    by (simp add: total_build_lookups dict_get_def)
qed

lemma evaluate_activity_total:
  assumes "i < length ACTIVITIES" and "gene_in_bounds gene" and "gene \<in> set (assignments s)"
  shows "\<exists>fitness'. evaluate_activity (build_lookups s) fitness (i, gene) = Inr fitness'"
proof -
  obtain a r t f where gene: "gene = (a, r, t, f)" by (cases gene) auto
  from assms(2) have b: "0 \<le> r" "r < int (length ROOMS)" "0 \<le> f" "f < int (length FACILITATORS)"
    by (simp_all add: gene gene_in_bounds_def)
  from lookups_present [OF assms(3)]
  obtain in_room in_slot total where
      "dict_get (time_room_activities (build_lookups s)) (t, r) = Inr in_room"
      "dict_get (time_facilitator_activities (build_lookups s)) (t, f) = Inr in_slot"
      "dict_get (facilitator_total_activities (build_lookups s)) f = Inr total"
    by (auto simp: gene room_key_def facilitator_key_def facilitator_of_def)
  then show ?thesis
    using assms(1) b
    by (simp add: evaluate_activity_def gene py_index_nat py_index_in_bounds)
qed

lemma in_set_enumerate:
  assumes "x \<in> set (enumerate 0 xs)"
  shows "fst x < length xs \<and> snd x = xs ! fst x"
  using assms by (simp add: in_set_enumerate_eq)

lemma well_formed_gene:
  assumes "well_formed s" and "i < length (assignments s)"
  shows "gene_in_bounds (assignments s ! i)"
  using assms by (simp add: well_formed_def list_all_length)

lemma activity_loop_total:
  assumes "well_formed s"
  shows "\<exists>fitness'. for_each (evaluate_activity (build_lookups s))
           (enumerate 0 (assignments s)) fitness = Inr fitness'"
proof (rule for_each_total)
  fix fit :: rat and x
  assume "x \<in> set (enumerate 0 (assignments s))"
  from in_set_enumerate [OF this]
  have x: "fst x < length (assignments s)" "snd x = assignments s ! fst x" by auto
  then have "fst x < length ACTIVITIES" "gene_in_bounds (snd x)" "snd x \<in> set (assignments s)"
    using assms well_formed_gene [OF assms] by (simp_all add: well_formed_def)
  from evaluate_activity_total [OF this, of fit]
  show "\<exists>s'. evaluate_activity (build_lookups s) fit x = Inr s'" by simp
qed

lemma room_of_total:
  assumes "well_formed s" and "i < length (assignments s)"
  shows "\<exists>r. room_of s (int i) = Inr r \<and> 0 \<le> r \<and> r < int (length ROOMS)"
proof -
  obtain a r t f where g: "assignments s ! i = (a, r, t, f)" by (cases "assignments s ! i") auto
  from well_formed_gene [OF assms] g have "0 \<le> r" "r < int (length ROOMS)"
    by (simp_all add: gene_in_bounds_def)
  then show ?thesis using assms(2) g by (simp add: room_of_def py_index_nat)
qed

lemma time_of_total:
  assumes "i < length (assignments s)"
  shows "\<exists>t. time_of s (int i) = Inr t"
  using assms by (cases "assignments s ! i") (simp add: time_of_def py_index_nat)

lemma room_name_total:
  assumes "0 \<le> r" and "r < int (length ROOMS)"
  shows "\<exists>n. room_name r = Inr n"
  using assms by (simp add: room_name_def py_index_in_bounds)

lemma building_pair_total:
  assumes "well_formed s" and "a1 < length (assignments s)" and "a2 < length (assignments s)"
  shows "\<exists>fitness'. building_pair s fitness (a1, a2) = Inr fitness'"
proof -
  from room_of_total [OF assms(1,2)] obtain r1 where r1: "room_of s (int a1) = Inr r1"
      "0 \<le> r1" "r1 < int (length ROOMS)" by auto
  from room_of_total [OF assms(1,3)] obtain r2 where r2: "room_of s (int a2) = Inr r2"
      "0 \<le> r2" "r2 < int (length ROOMS)" by auto
  from room_name_total [OF r1(2,3)] obtain n1 where n1: "room_name r1 = Inr n1" by auto
  from room_name_total [OF r2(2,3)] obtain n2 where n2: "room_name r2 = Inr n2" by auto
  show ?thesis using r1(1) r2(1) n1 n2 by (simp add: building_pair_def)
qed

lemma activities_at_bound:
  assumes "a \<in> set (activities_at s t f)"
  shows "a < length (assignments s)"
  using assms by (auto simp: activities_at_def in_set_enumerate_eq)

lemma consecutive_slot_total:
  assumes "well_formed s"
  shows "\<exists>fitness'. consecutive_slot s f ts fitness i = Inr fitness'"
proof (cases "ts ! (i + 1) - ts ! i = 1")
  case False
  then show ?thesis by (simp add: consecutive_slot_def)
next
  case True
  have "\<exists>fitness'. for_each (building_pair s)
          (List.product (activities_at s (ts ! i) f) (activities_at s (ts ! (i + 1)) f))
          (fitness + 1/2) = Inr fitness'"
  proof (rule for_each_total)
    fix fit :: rat and p
    assume "p \<in> set (List.product (activities_at s (ts ! i) f) (activities_at s (ts ! (i + 1)) f))"
    then have "fst p < length (assignments s)" "snd p < length (assignments s)"
      using activities_at_bound by auto
    from building_pair_total [OF assms this, of fit]
    show "\<exists>s'. building_pair s fit p = Inr s'" by simp
  qed
  then show ?thesis using True by (simp add: consecutive_slot_def Let_def)
qed

lemma consecutive_loop_total:
  assumes "well_formed s"
  shows "\<exists>fitness'. for_each (consecutive_facilitator s) items fitness = Inr fitness'"
proof (rule for_each_total)
  fix fit :: rat and item :: "int \<times> int list"
  obtain f ts where item: "item = (f, ts)" by (cases item)
  have "\<exists>fitness'. for_each (consecutive_slot s f (sort ts)) [0 ..< length (sort ts) - 1] fit =
      Inr fitness'"
    by (rule for_each_total) (rule consecutive_slot_total [OF assms])
  then show "\<exists>s'. consecutive_facilitator s fit item = Inr s'"
    by (simp add: consecutive_facilitator_def item)
qed

lemma activity_named_sla:
  "activity_named ''SLA101A'' = Inr 0" "activity_named ''SLA101B'' = Inr 1"
  "activity_named ''SLA191A'' = Inr 2" "activity_named ''SLA191B'' = Inr 3"
  by (simp_all add: activity_named_def ACTIVITIES_def mk_activity_def enumerate_eq_zip upt_rec)

lemma sla_pair_total:
  assumes "0 \<le> r1" "r1 < int (length ROOMS)" "0 \<le> r2" "r2 < int (length ROOMS)"
  shows "\<exists>fitness'. sla_pair fitness ((t1, r1), (t2, r2)) = Inr fitness'"
proof -
  from room_name_total [OF assms(1,2)] obtain n1 where n1: "room_name r1 = Inr n1" by auto
  from room_name_total [OF assms(3,4)] obtain n2 where n2: "room_name r2 = Inr n2" by auto
  show ?thesis using n1 n2 by (simp add: sla_pair_def Let_def)
qed

lemma activity_specific_total:
  assumes "well_formed s"
  shows "\<exists>fitness'. activity_specific s fitness = Inr fitness'"
proof -
  have len: "length (assignments s) = 11"
    using assms by (simp add: well_formed_def catalog_sizes)
  have lt: "(0::nat) < length (assignments s)" "(1::nat) < length (assignments s)"
      "(2::nat) < length (assignments s)" "(3::nat) < length (assignments s)"
    using len by simp_all
  from time_of_total [OF lt(1)] obtain t0 where t0: "time_of s 0 = Inr t0" by auto
  from time_of_total [OF lt(2)] obtain t1 where t1: "time_of s 1 = Inr t1" by auto
  from time_of_total [OF lt(3)] obtain t2 where t2: "time_of s 2 = Inr t2" by auto
  from time_of_total [OF lt(4)] obtain t3 where t3: "time_of s 3 = Inr t3" by auto
  from room_of_total [OF assms lt(1)] obtain r0 where r0: "room_of s 0 = Inr r0"
      "0 \<le> r0" "r0 < int (length ROOMS)" by auto
  from room_of_total [OF assms lt(2)] obtain r1 where r1: "room_of s 1 = Inr r1"
      "0 \<le> r1" "r1 < int (length ROOMS)" by auto
  from room_of_total [OF assms lt(3)] obtain r2 where r2: "room_of s 2 = Inr r2"
      "0 \<le> r2" "r2 < int (length ROOMS)" by auto
  from room_of_total [OF assms lt(4)] obtain r3 where r3: "room_of s 3 = Inr r3"
      "0 \<le> r3" "r3 < int (length ROOMS)" by auto
  have "\<exists>fitness'. for_each sla_pair
          (List.product [(t2, r2), (t3, r3)] [(t0, r0), (t1, r1)]) fit = Inr fitness'" for fit
  proof (rule for_each_total)
    fix fit' :: rat and p
    assume "p \<in> set (List.product [(t2, r2), (t3, r3)] [(t0, r0), (t1, r1)])"
    then obtain ta ra tb rb where p: "p = ((ta, ra), (tb, rb))"
        "ra = r2 \<or> ra = r3" "rb = r0 \<or> rb = r1"
      by auto
    then have "0 \<le> ra" "ra < int (length ROOMS)" "0 \<le> rb" "rb < int (length ROOMS)"
      using r0 r1 r2 r3 by auto
    from sla_pair_total [OF this] show "\<exists>s'. sla_pair fit' p = Inr s'"
      unfolding p(1) by simp
  qed
  then show ?thesis
    using t0 t1 t2 t3 r0(1) r1(1) r2(1) r3(1)
    by (simp add: activity_specific_def activity_named_sla)
qed

lemma calculate_fitness_total:
  assumes "well_formed s"
  shows "\<exists>fitness. calculate_fitness s = Inr fitness"
proof -
  from activity_loop_total [OF assms, of 0] obtain f1 where
    f1: "for_each (evaluate_activity (build_lookups s)) (enumerate 0 (assignments s)) 0 = Inr f1"
    by auto
  from consecutive_loop_total [OF assms, of "facilitator_time_slots (build_lookups s)" f1]
  obtain f2 where f2: "for_each (consecutive_facilitator s)
      (facilitator_time_slots (build_lookups s)) f1 = Inr f2"
    by auto
  from activity_specific_total [OF assms, of f2] show ?thesis
    using f1 f2 by (simp add: calculate_fitness_def Let_def)
qed

section \<open>Selection and reproduction do not raise\<close>

lemma map_err_total:
  assumes "\<And>x. x \<in> set xs \<Longrightarrow> \<exists>y. f x = Inr y"
  shows "\<exists>ys. map_err f xs = Inr ys"
  using assms
proof (induction xs)
  case Nil
  then show ?case by simp
next
  case (Cons x xs)
  then obtain y ys where "f x = Inr y" "map_err f xs = Inr ys" by (meson list.set_intros)
  then show ?case by simp
qed

lemma map_err_result:
  assumes "map_err f xs = Inr ys"
  shows "length ys = length xs \<and> (\<forall>i < length xs. f (xs ! i) = Inr (ys ! i))"
  using assms
proof (induction xs arbitrary: ys)
  case Nil
  then show ?case by simp
next
  case (Cons x xs)
  from Cons.prems obtain y ys' where y: "f x = Inr y" "map_err f xs = Inr ys'" "ys = y # ys'"
    by (auto elim!: bind_err_InrE)
  from Cons.IH [OF y(2)] y(1,3) show ?case
    by (auto simp: nth_Cons split: nat.splits)
qed

lemma py_max_Max: "xs \<noteq> [] \<Longrightarrow> py_max xs = Inr (Max (set xs))"
  by (cases xs) (simp_all add: py_max_def Max.set_eq_fold [symmetric])

lemma py_min_Min: "xs \<noteq> [] \<Longrightarrow> py_min xs = Inr (Min (set xs))"
  by (cases xs) (simp_all add: py_min_def Min.set_eq_fold [symmetric])

lemma argsort_set: "set (argsort fs) = {0 ..< length fs}"
  by (simp add: argsort_def)

lemma argsort_length: "length (argsort fs) = length fs"
  by (simp add: argsort_def)

lemma argsort_sorted: "sorted (map (\<lambda>i. fs ! i) (argsort fs))"
  by (simp add: argsort_def)

lemma last_n_nonempty:
  assumes "xs \<noteq> []"
  shows "last_n k xs \<noteq> [] \<and> last (last_n k xs) = last xs"
proof (cases "k = 0")
  case True
  then show ?thesis using assms by (simp add: last_n_def)
next
  case False
  have "0 < length xs" using assms by simp
  then have "length xs - k < length xs" using False by arith
  then show ?thesis using False by (simp add: last_n_def last_drop)
qed

lemma last_n_subset: "set (last_n k xs) \<subseteq> set xs"
  by (auto simp: last_n_def dest: in_set_dropD)

lemma last_n_length: "length (last_n k xs) \<le> length xs"
  by (simp add: last_n_def)

lemma argsort_last_is_best:
  assumes "fs \<noteq> []"
  shows "last (argsort fs) < length fs \<and> fs ! last (argsort fs) = Max (set fs)"
proof -
  let ?xs = "argsort fs"
  have ne: "?xs \<noteq> []" using assms argsort_length [of fs] by auto
  then have "last ?xs \<in> set ?xs" by simp
  then have lt: "last ?xs < length fs" by (simp add: argsort_set)
  have "fs ! j \<le> fs ! last ?xs" if "j < length fs" for j
  proof -
    have "j \<in> set ?xs" using that by (simp add: argsort_set)
    then obtain p where p: "p < length ?xs" "?xs ! p = j"
      by (auto simp: in_set_conv_nth)
    have "map (\<lambda>i. fs ! i) ?xs ! p \<le> map (\<lambda>i. fs ! i) ?xs ! (length ?xs - 1)"
      using sorted_nth_mono [OF argsort_sorted, of p "length ?xs - 1" fs] p(1) by simp
    then show ?thesis using p ne by (simp add: last_conv_nth)
  qed
  then have "\<forall>x \<in> set fs. x \<le> fs ! last ?xs"
    by (metis in_set_conv_nth)
  moreover have "fs ! last ?xs \<in> set fs" using lt by simp
  ultimately have "Max (set fs) = fs ! last ?xs"
    by (intro Max_eqI) auto
  then show ?thesis using lt by simp
qed

lemma rng_choice_total:
  assumes "k \<le> n"
  shows "\<exists>xs g'. rng_choice n k g = Inr (xs, g')"
  using assms by (cases "draw_distinct [0 ..< n] k g") (simp add: rng_choice_def)

lemma tournament_total:
  assumes "1 \<le> TOURNAMENT_SIZE cfg" and "TOURNAMENT_SIZE cfg \<le> length pop"
    and "length fs = length pop"
  shows "\<exists>s g'. tournament_selection cfg pop fs g = Inr (s, g') \<and> s \<in> set pop"
proof -
  from rng_choice_total [OF assms(2)] obtain sample g'
    where c: "rng_choice (length pop) (TOURNAMENT_SIZE cfg) g = Inr (sample, g')" by blast
  from rng_choice_sample [OF c] have s: "set sample \<subseteq> {..< length pop}"
      "length sample = TOURNAMENT_SIZE cfg" by auto
  then have ne: "sample \<noteq> []" using assms(1) by auto
  have "\<forall>j \<in> set sample. j < length fs" using s(1) assms(3) by auto
  from max_by_score_best [OF ne this] obtain m
    where m: "max_by_score fs sample = Inr m" "m \<in> set sample" by blast
  then have "m < length pop" using s(1) by auto
  then show ?thesis using c m(1)
    by (simp add: tournament_selection_def py_index_nat)
qed

lemma tournament_too_large:
  assumes "TOURNAMENT_SIZE cfg > length pop"
  shows "tournament_selection cfg pop fs g = Inl ValueError"
  using assms by (simp add: tournament_selection_def rng_choice_def)

lemma breed_total:
  assumes "1 \<le> TOURNAMENT_SIZE cfg" and "TOURNAMENT_SIZE cfg \<le> length pop"
    and "length fs = length pop" and "list_all well_formed pop"
  shows "\<exists>c1 c2 g'. breed cfg pop fs rate g = Inr ((c1, c2), g') \<and> well_formed c1 \<and> well_formed c2"
proof -
  from tournament_total [OF assms(1,2,3)] obtain p1 g1
    where p1: "tournament_selection cfg pop fs g = Inr (p1, g1)" "p1 \<in> set pop" by blast
  from tournament_total [OF assms(1,2,3)] obtain p2 g2
    where p2: "tournament_selection cfg pop fs g1 = Inr (p2, g2)" "p2 \<in> set pop" by blast
  have w: "well_formed p1" "well_formed p2"
    using assms(4) p1(2) p2(2) by (auto simp: list_all_iff)
  from crossover_ok [OF w] obtain c1 c2 g3
    where c: "crossover p1 p2 g2 = Inr ((c1, c2), g3)" "well_formed c1" "well_formed c2" by blast
  from mutate_ok [OF c(2)] obtain m1 g4
    where m1: "mutate c1 rate g3 = Inr (m1, g4)" "well_formed m1" by blast
  from mutate_ok [OF c(3)] obtain m2 g5
    where m2: "mutate c2 rate g4 = Inr (m2, g5)" "well_formed m2" by blast
  show ?thesis using p1(1) p2(1) c(1) m1 m2 by (simp add: breed_def)
qed

lemma breed_too_large:
  assumes "TOURNAMENT_SIZE cfg > length pop"
  shows "breed cfg pop fs rate g = Inl ValueError"
  using tournament_too_large [OF assms] by (simp add: breed_def)

lemma reproduce_prefix:
  "reproduce cfg pop fs rate ng g = Inr (ng', g') \<Longrightarrow> prefix ng ng'"
proof (induction cfg pop fs rate ng g rule: reproduce.induct)
  case (1 cfg pop fs rate ng g)
  show ?case
  proof (cases "length ng < POPULATION_SIZE cfg")
    case False
    then show ?thesis using "1.prems" by (simp add: reproduce.simps)
  next
    case True
    from "1.prems" True obtain c1 c2 g1 where b: "breed cfg pop fs rate g = Inr ((c1, c2), g1)"
      and r: "reproduce cfg pop fs rate
            (if length (ng @ [c1]) < POPULATION_SIZE cfg then ng @ [c1] @ [c2] else ng @ [c1]) g1 =
          Inr (ng', g')"
      by (subst (asm) reproduce.simps) (auto elim!: bind_err_InrE)
    from "1.IH" [OF True b refl refl r]
    have "prefix (if length (ng @ [c1]) < POPULATION_SIZE cfg then ng @ [c1] @ [c2] else ng @ [c1]) ng'" .
    then show ?thesis
      by (auto split: if_splits dest: append_prefixD)
  qed
qed

lemma reproduce_total:
  "1 \<le> TOURNAMENT_SIZE cfg \<Longrightarrow> TOURNAMENT_SIZE cfg \<le> length pop \<Longrightarrow>
   length fs = length pop \<Longrightarrow> list_all well_formed pop \<Longrightarrow>
   list_all well_formed ng \<Longrightarrow> length ng \<le> POPULATION_SIZE cfg \<Longrightarrow>
   \<exists>ng' g'. reproduce cfg pop fs rate ng g = Inr (ng', g') \<and> list_all well_formed ng' \<and>
            length ng' = POPULATION_SIZE cfg"
proof (induction cfg pop fs rate ng g rule: reproduce.induct)
  case (1 cfg pop fs rate ng g)
  show ?case
  proof (cases "length ng < POPULATION_SIZE cfg")
    case False
    then show ?thesis using "1.prems" by (simp add: reproduce.simps)
  next
    case True
    from breed_total [OF "1.prems"(1,2,3,4)] obtain c1 c2 g1
      where b: "breed cfg pop fs rate g = Inr ((c1, c2), g1)" "well_formed c1" "well_formed c2"
      by blast
    let ?ng = "if length (ng @ [c1]) < POPULATION_SIZE cfg then ng @ [c1] @ [c2] else ng @ [c1]"
    have w: "list_all well_formed ?ng" using "1.prems"(5) b(2,3) by simp
    have l: "length ?ng \<le> POPULATION_SIZE cfg" using True by simp
    from "1.IH" [OF True b(1) refl refl "1.prems"(1,2,3,4) w l]
    obtain ng' g' where "reproduce cfg pop fs rate ?ng g1 = Inr (ng', g')"
        "list_all well_formed ng'" "length ng' = POPULATION_SIZE cfg"
      by blast
    then show ?thesis using True b(1) by (subst reproduce.simps) simp
  qed
qed

lemma reproduce_too_large:
  assumes "TOURNAMENT_SIZE cfg > length pop" and "length ng < POPULATION_SIZE cfg"
  shows "reproduce cfg pop fs rate ng g = Inl ValueError"
  using assms breed_too_large [OF assms(1)] by (subst reproduce.simps) simp

lemma create_population_total:
  "\<exists>pop g'. create_population n g = Inr (pop, g') \<and> length pop = n \<and> list_all well_formed pop"
proof (induction n arbitrary: g)
  case 0
  then show ?case by simp
next
  case (Suc n)
  from create_random_schedule_ok obtain s g1
    where s: "create_random_schedule g = Inr (s, g1)" "well_formed s" by blast
  from Suc [of g1] obtain pop g2
    where "create_population n g1 = Inr (pop, g2)" "length pop = n" "list_all well_formed pop"
    by blast
  then show ?case using s by simp
qed

section \<open>The generational loop runs to one of its two exits\<close>

lemma generation_step_exit:
  assumes "generation_step cfg st = Inr (st', brk)"
  shows "case brk of
           Some Converged \<Rightarrow> generation st' = generation st \<and>
             MIN_GENERATIONS cfg \<le> generation st \<and> 0 < IMPROVEMENT_THRESHOLD cfg
         | Some MaxGenerations \<Rightarrow> generation st' = generation st + 1 \<and> 1000 \<le> generation st'
         | None \<Rightarrow> generation st' = generation st + 1 \<and> generation st' < 1000"
  using assms unfolding generation_step_def Let_def
  by (auto elim!: bind_err_InrE simp: is_converged_def split: if_splits prod.splits option.splits)

lemma fitness_scores_total:
  assumes "list_all well_formed pop"
  shows "\<exists>fs. map_err calculate_fitness pop = Inr fs \<and> length fs = length pop"
proof -
  have "\<exists>fs. map_err calculate_fitness pop = Inr fs"
    using assms calculate_fitness_total by (intro map_err_total) (auto simp: list_all_iff)
  then show ?thesis using map_err_result by blast
qed

lemma elites_total:
  assumes "length fs = length pop" and "fs \<noteq> []"
  shows "\<exists>elites. map_err (\<lambda>idx. py_index pop (int idx)) (last_n k (argsort fs)) = Inr elites \<and>
           set elites \<subseteq> set pop \<and> length elites \<le> length pop \<and>
           pop ! last (argsort fs) \<in> set elites"
proof -
  let ?idx = "last_n k (argsort fs)"
  have sub: "set ?idx \<subseteq> {0 ..< length pop}"
    using last_n_subset [of k "argsort fs"] assms(1) by (simp add: argsort_set)
  then have "\<exists>elites. map_err (\<lambda>idx. py_index pop (int idx)) ?idx = Inr elites"
    by (intro map_err_total) (auto simp: py_index_nat)
  then obtain elites where e: "map_err (\<lambda>idx. py_index pop (int idx)) ?idx = Inr elites" by blast
  from map_err_result [OF e] have r: "length elites = length ?idx"
      "\<forall>i < length ?idx. py_index pop (int (?idx ! i)) = Inr (elites ! i)" by auto
  have el: "elites ! i = pop ! (?idx ! i)" if "i < length ?idx" for i
  proof -
    have "?idx ! i < length pop" using sub that by (metis atLeastLessThan_iff nth_mem subsetD)
    then have "py_index pop (int (?idx ! i)) = Inr (pop ! (?idx ! i))" by (rule py_index_nat)
    moreover have "py_index pop (int (?idx ! i)) = Inr (elites ! i)" using r(2) that by blast
    ultimately show ?thesis by simp
  qed
  have ne: "argsort fs \<noteq> []" using assms(2) argsort_length [of fs] by auto
  from last_n_nonempty [OF ne, of k] have ln: "?idx \<noteq> []" "last ?idx = last (argsort fs)" by auto
  have "set elites \<subseteq> set pop"
  proof
    fix x assume "x \<in> set elites"
    then obtain i where i: "i < length elites" "elites ! i = x" by (auto simp: in_set_conv_nth)
    then have "?idx ! i < length pop" using sub r(1) by (metis atLeastLessThan_iff nth_mem subsetD)
    then show "x \<in> set pop" using i el [of i] r(1) by auto
  qed
  moreover have "length elites \<le> length pop"
    using r(1) last_n_length [of k "argsort fs"] assms(1) by (simp add: argsort_length)
  moreover have "pop ! last (argsort fs) \<in> set elites"
  proof -
    have "length ?idx - 1 < length ?idx" using ln(1) by simp
    from el [OF this] have "elites ! (length ?idx - 1) = pop ! last ?idx"
      using ln(1) by (simp add: last_conv_nth)
    moreover have "elites ! (length ?idx - 1) \<in> set elites"
      using r(1) ln(1) by simp
    ultimately show ?thesis using ln(2) by simp
  qed
  ultimately show ?thesis using e by blast
qed

lemma generation_step_total:
  assumes "engine_ok cfg st"
  shows "\<exists>st' brk. generation_step cfg st = Inr (st', brk) \<and> engine_ok cfg st'"
proof -
  let ?pop = "population st"
  from assms have ok: "1 \<le> TOURNAMENT_SIZE cfg" "TOURNAMENT_SIZE cfg \<le> length ?pop"
      "length ?pop = POPULATION_SIZE cfg" "list_all well_formed ?pop"
    by (simp_all add: engine_ok_def)
  from fitness_scores_total [OF ok(4)] obtain fs
    where fs: "map_err calculate_fitness ?pop = Inr fs" "length fs = length ?pop" by blast
  have ne: "fs \<noteq> []" using fs(2) ok(1,2) by auto
  note mx = py_max_Max [OF ne] and mn = py_min_Min [OF ne]
  let ?avg = "np_mean fs"
  let ?imp = "improvement_of (generation st) ?avg (previous_avg_fitness st)"
  show ?thesis
  proof (cases "is_converged cfg (generation st) ?imp")
    case True
    then show ?thesis using fs(1) mx mn assms
      by (simp add: generation_step_def Let_def engine_ok_def)
  next
    case False
    let ?rate = "adapt_mutation_rate (generation st) ?imp (mutation_rate st)"
    from elites_total [OF fs(2) ne, of "POPULATION_SIZE cfg div 10"] obtain elites
      where e: "map_err (\<lambda>idx. py_index ?pop (int idx))
                  (last_n (POPULATION_SIZE cfg div 10) (argsort fs)) = Inr elites"
        "set elites \<subseteq> set ?pop" "length elites \<le> length ?pop"
      by blast
    have ew: "list_all well_formed elites" using e(2) ok(4) by (auto simp: list_all_iff)
    have el: "length elites \<le> POPULATION_SIZE cfg" using e(3) ok(3) by simp
    from reproduce_total [OF ok(1,2) fs(2) ok(4) ew el, of ?rate "rng_state st"]
    obtain ng g' where r: "reproduce cfg ?pop fs ?rate elites (rng_state st) = Inr (ng, g')"
        "list_all well_formed ng" "length ng = POPULATION_SIZE cfg"
      by blast
    show ?thesis using fs(1) mx mn False e(1) r ok(1,2,3)
      by (simp add: generation_step_def Let_def engine_ok_def)
  qed
qed

lemma evolve_total:
  "engine_ok cfg st \<Longrightarrow> generation st < 1000 \<Longrightarrow>
   \<exists>st' reason. evolve cfg st = Inr (st', reason) \<and> engine_ok cfg st' \<and>
     (case reason of
        Converged \<Rightarrow> MIN_GENERATIONS cfg \<le> generation st' \<and> generation st' < 1000 \<and>
          0 < IMPROVEMENT_THRESHOLD cfg
      | MaxGenerations \<Rightarrow> generation st' = 1000)"
proof (induction cfg st rule: evolve.induct)
  case (1 cfg st)
  from generation_step_total [OF "1.prems"(1)] obtain st1 brk
    where s: "generation_step cfg st = Inr (st1, brk)" "engine_ok cfg st1" by blast
  note ex = generation_step_exit [OF s(1)]
  show ?case
  proof (cases brk)
    case None
    then have g: "generation st1 = generation st + 1" "generation st1 < 1000" using ex by auto
    from "1.IH" [OF s(1) refl None s(2) g(2)] show ?thesis
      using s(1) None by (subst evolve.simps) simp
  next
    case (Some reason)
    show ?thesis
    proof (cases reason)
      case Converged
      then show ?thesis using s Some ex "1.prems"(2) by (subst evolve.simps) simp
    next
      case MaxGenerations
      then have "generation st1 = 1000" using Some ex "1.prems"(2) by simp
      then show ?thesis using s Some MaxGenerations by (subst evolve.simps) simp
    qed
  qed
qed

section \<open>A run with a configuration the specification calls invalid\<close>

lemma fit0: "calculate_fitness all_zero = Inr (- 84/5)"
  by code_simp
lemma blank_genes:
  "replicate 11 ((0, 0, 0, 0) :: gene) =
     [(0,0,0,0), (0,0,0,0), (0,0,0,0), (0,0,0,0), (0,0,0,0), (0,0,0,0),
      (0,0,0,0), (0,0,0,0), (0,0,0,0), (0,0,0,0), (0,0,0,0)]"
  by code_simp
lemma crs0: "create_random_schedule (\<lambda>n. 0) = Inr (all_zero, \<lambda>n. 0)"
  by (simp add: create_random_schedule_def random_assignment_def rng_integers_def py_set_def
      catalog_sizes all_zero_def upt_rec blank_genes)

lemma pop0: "create_population (POPULATION_SIZE lone_config) (\<lambda>n. 0) = Inr ([all_zero], \<lambda>n. 0)"
  by (simp add: lone_config_def crs0)

lemma step0:
  "generation_step lone_config (initial_state lone_config [all_zero] (\<lambda>n. 0)) =
     Inr (converged_at_once, Some Converged)"
  by (simp add: generation_step_def initial_state_def fit0 py_max_def py_min_def np_mean_def
      improvement_of_def is_converged_def lone_config_def Let_def converged_at_once_def)

lemma evolve0:
  "evolve lone_config (initial_state lone_config [all_zero] (\<lambda>n. 0)) =
     Inr (converged_at_once, Converged)"
  by (subst evolve.simps) (simp add: step0)

lemma final0:
  "map_err calculate_fitness (population converged_at_once) = Inr [- 84/5]"
  by (simp add: converged_at_once_def fit0)

text \<open>
  Claim C7 as stated (a tournament size above the population size, or a population size below
  2, is rejected when the engine is constructed) fails: with population size 1 and tournament size
  2 the program runs and returns its only chromosome with fitness -16.8.
\<close>

theorem invalid_configuration_is_accepted:
  "run_genetic_algorithm lone_config (\<lambda>n. 0) = Inr (all_zero, - 84/5)"
  by (simp add: run_genetic_algorithm_def pop0 evolve0 final0 max_by_score_def py_index_def)
    (simp add: converged_at_once_def)

section \<open>The safety limit\<close>

lemma evolve_exit:
  "evolve cfg st = Inr (st', reason) \<Longrightarrow> generation st < 1000 \<Longrightarrow>
     (case reason of
        Converged \<Rightarrow> MIN_GENERATIONS cfg \<le> generation st' \<and> generation st' < 1000 \<and>
          0 < IMPROVEMENT_THRESHOLD cfg
      | MaxGenerations \<Rightarrow> generation st' = 1000)"
proof (induction cfg st rule: evolve.induct)
  case (1 cfg st)
  from "1.prems"(1) obtain st1 brk where s: "generation_step cfg st = Inr (st1, brk)"
    and r: "(case brk of Some reason \<Rightarrow> Inr (st1, reason) | None \<Rightarrow> evolve cfg st1) = Inr (st', reason)"
    by (subst (asm) evolve.simps) (auto elim!: bind_err_InrE)
  note ex = generation_step_exit [OF s]
  show ?case
  proof (cases brk)
    case None
    then have g: "generation st1 < 1000" using ex by auto
    from r None have "evolve cfg st1 = Inr (st', reason)" by simp
    from "1.IH" [OF s refl None this g] show ?thesis .
  next
    case (Some reason1)
    then have eq: "st1 = st'" "reason1 = reason" using r by auto
    show ?thesis
    proof (cases reason)
      case Converged
      then show ?thesis using Some eq ex "1.prems"(2) by simp
    next
      case MaxGenerations
      then show ?thesis using Some eq ex "1.prems"(2) by simp
    qed
  qed
qed

lemma initial_state_simps [simp]:
  "population (initial_state cfg pop g) = pop"
  "generation (initial_state cfg pop g) = 0"
  by (simp_all add: initial_state_def)

lemma engine_ok_initial:
  assumes "1 \<le> TOURNAMENT_SIZE cfg" and "TOURNAMENT_SIZE cfg \<le> POPULATION_SIZE cfg"
    and "length pop = POPULATION_SIZE cfg" and "list_all well_formed pop"
  shows "engine_ok cfg (initial_state cfg pop g)"
  using assms by (simp add: engine_ok_def)

text \<open>
  Claim C6. The generational loop is a total function (its termination is proved with the
  measure \<open>1000 - generation\<close>). A run from the initial state that does not raise leaves the
  loop with the generation counter at most 1000, and through the safety limit exactly when the
  counter is 1000; if the convergence test cannot hold (the minimum generation count is at
  least 1000, or the threshold is not positive), the exit is the safety limit. For a
  well-formed population and a tournament size between 1 and the population size the run does
  not raise.
\<close>

theorem loop_stops_at_safety_limit:
  "(evolve cfg (initial_state cfg pop g) = Inr (st', reason) \<longrightarrow>
      generation st' \<le> 1000 \<and> (reason = MaxGenerations \<longleftrightarrow> generation st' = 1000) \<and>
      (1000 \<le> MIN_GENERATIONS cfg \<or> IMPROVEMENT_THRESHOLD cfg \<le> 0 \<longrightarrow>
         reason = MaxGenerations)) \<and>
   (1 \<le> TOURNAMENT_SIZE cfg \<and> TOURNAMENT_SIZE cfg \<le> POPULATION_SIZE cfg \<and>
    length pop = POPULATION_SIZE cfg \<and> list_all well_formed pop \<longrightarrow>
      (\<exists>st reason. evolve cfg (initial_state cfg pop g) = Inr (st, reason)))"
proof (intro conjI impI)
  assume e: "evolve cfg (initial_state cfg pop g) = Inr (st', reason)"
  from evolve_exit [OF e] have x: "case reason of
        Converged \<Rightarrow> MIN_GENERATIONS cfg \<le> generation st' \<and> generation st' < 1000 \<and>
          0 < IMPROVEMENT_THRESHOLD cfg
      | MaxGenerations \<Rightarrow> generation st' = 1000" by simp
  show "generation st' \<le> 1000" using x by (cases reason) simp_all
  show "reason = MaxGenerations \<longleftrightarrow> generation st' = 1000" using x by (cases reason) simp_all
  assume "1000 \<le> MIN_GENERATIONS cfg \<or> IMPROVEMENT_THRESHOLD cfg \<le> 0"
  then show "reason = MaxGenerations" using x by (cases reason) auto
next
  assume "1 \<le> TOURNAMENT_SIZE cfg \<and> TOURNAMENT_SIZE cfg \<le> POPULATION_SIZE cfg \<and>
    length pop = POPULATION_SIZE cfg \<and> list_all well_formed pop"
  then have "engine_ok cfg (initial_state cfg pop g)" by (simp add: engine_ok_initial)
  from evolve_total [OF this] show "\<exists>st reason. evolve cfg (initial_state cfg pop g) = Inr (st, reason)"
    by auto
qed

lemma well_formed_all_zero: "well_formed all_zero"
  by (simp add: well_formed_def all_zero_def gene_in_bounds_def catalog_sizes)

theorem loop_stops_at_safety_limit_witness:
  "\<exists>st. evolve patient_config (initial_state patient_config [all_zero] (\<lambda>n. 0)) =
          Inr (st, MaxGenerations) \<and> generation st = 1000"
proof -
  have h: "1 \<le> TOURNAMENT_SIZE patient_config \<and>
      TOURNAMENT_SIZE patient_config \<le> POPULATION_SIZE patient_config \<and>
      length [all_zero] = POPULATION_SIZE patient_config \<and> list_all well_formed [all_zero]"
    by (simp add: patient_config_def default_config_def well_formed_all_zero)
  have m: "1000 \<le> MIN_GENERATIONS patient_config"
    by (simp add: patient_config_def)
  from loop_stops_at_safety_limit [of patient_config "[all_zero]" "\<lambda>n. 0"] h
  obtain st reason where e: "evolve patient_config (initial_state patient_config [all_zero] (\<lambda>n. 0)) =
      Inr (st, reason)" by blast
  from loop_stops_at_safety_limit [of patient_config "[all_zero]" "\<lambda>n. 0" st reason] e m
  have "reason = MaxGenerations" "generation st = 1000" by auto
  then show ?thesis using e by auto
qed

section \<open>What an unsuitable configuration does\<close>

lemma last_n_length_eq:
  assumes "0 < k" and "k \<le> length xs"
  shows "length (last_n k xs) = k"
  using assms by (simp add: last_n_def)

lemma max_by_score_all:
  assumes "fs \<noteq> []"
  shows "\<exists>m. max_by_score fs [0 ..< length fs] = Inr m \<and> m < length fs"
proof -
  have ne: "[0 ..< length fs] \<noteq> []" using assms by simp
  have "\<forall>j \<in> set [0 ..< length fs]. j < length fs" by simp
  from max_by_score_best [OF ne this] show ?thesis by auto
qed

lemma run_total:
  assumes "1 \<le> TOURNAMENT_SIZE cfg" and "TOURNAMENT_SIZE cfg \<le> POPULATION_SIZE cfg"
  shows "\<exists>s f. run_genetic_algorithm cfg g = Inr (s, f)"
proof -
  from create_population_total [of "POPULATION_SIZE cfg" g] obtain pop g1
    where p: "create_population (POPULATION_SIZE cfg) g = Inr (pop, g1)"
      "length pop = POPULATION_SIZE cfg" "list_all well_formed pop" by blast
  have "engine_ok cfg (initial_state cfg pop g1)"
    using assms p(2,3) by (rule engine_ok_initial)
  from evolve_total [OF this] obtain st reason
    where e: "evolve cfg (initial_state cfg pop g1) = Inr (st, reason)" "engine_ok cfg st" by auto
  then have ok: "length (population st) = POPULATION_SIZE cfg" "list_all well_formed (population st)"
    by (simp_all add: engine_ok_def)
  from fitness_scores_total [OF ok(2)] obtain fs
    where fs: "map_err calculate_fitness (population st) = Inr fs"
      "length fs = length (population st)" by blast
  then have ne: "fs \<noteq> []" using ok(1) assms by auto
  from max_by_score_all [OF ne] obtain m
    where m: "max_by_score fs [0 ..< length fs] = Inr m" "m < length fs" by blast
  then have "m < length (population st)" using fs(2) by simp
  then show ?thesis using p(1) e(1) fs(1) m
    by (simp add: run_genetic_algorithm_def py_index_nat)
qed

lemma generation_step_too_large:
  assumes "POPULATION_SIZE cfg < TOURNAMENT_SIZE cfg" and "10 \<le> POPULATION_SIZE cfg"
    and "length (population st) = POPULATION_SIZE cfg" and "list_all well_formed (population st)"
    and "generation st < MIN_GENERATIONS cfg"
  shows "generation_step cfg st = Inl ValueError"
proof -
  let ?pop = "population st"
  let ?k = "POPULATION_SIZE cfg div 10"
  from fitness_scores_total [OF assms(4)] obtain fs
    where fs: "map_err calculate_fitness ?pop = Inr fs" "length fs = length ?pop" by blast
  have ne: "fs \<noteq> []" using fs(2) assms(2,3) by auto
  note mx = py_max_Max [OF ne] and mn = py_min_Min [OF ne]
  have nc: "\<not> is_converged cfg (generation st) imp" for imp
    using assms(5) by (simp add: is_converged_def)
  from elites_total [OF fs(2) ne, of ?k] obtain elites
    where e: "map_err (\<lambda>idx. py_index ?pop (int idx)) (last_n ?k (argsort fs)) = Inr elites"
    by blast
  have k: "0 < ?k" "?k \<le> length (argsort fs)" "?k < POPULATION_SIZE cfg"
    using assms(2,3) fs(2) by (simp_all add: argsort_length)
  from map_err_result [OF e] have "length elites = ?k"
    using last_n_length_eq [OF k(1,2)] by simp
  then have "length elites < POPULATION_SIZE cfg" using k(3) by simp
  moreover have "TOURNAMENT_SIZE cfg > length ?pop" using assms(1,3) by simp
  ultimately have "reproduce cfg ?pop fs rate elites g = Inl ValueError" for rate g
    by (rule reproduce_too_large [rotated])
  then show ?thesis using fs(1) mx mn nc e
    by (simp add: generation_step_def Let_def)
qed

lemma run_too_large:
  assumes "POPULATION_SIZE cfg < TOURNAMENT_SIZE cfg" and "10 \<le> POPULATION_SIZE cfg"
    and "1 \<le> MIN_GENERATIONS cfg"
  shows "run_genetic_algorithm cfg g = Inl ValueError"
proof -
  from create_population_total [of "POPULATION_SIZE cfg" g] obtain pop g1
    where p: "create_population (POPULATION_SIZE cfg) g = Inr (pop, g1)"
      "length pop = POPULATION_SIZE cfg" "list_all well_formed pop" by blast
  have "generation_step cfg (initial_state cfg pop g1) = Inl ValueError"
    using assms p(2,3) by (intro generation_step_too_large) simp_all
  then have "evolve cfg (initial_state cfg pop g1) = Inl ValueError"
    by (subst evolve.simps) simp
  then show ?thesis using p(1) by (simp add: run_genetic_algorithm_def)
qed

lemma run_empty:
  assumes "POPULATION_SIZE cfg = 0"
  shows "run_genetic_algorithm cfg g = Inl ValueError"
proof -
  have "generation_step cfg (initial_state cfg [] g) = Inl ValueError"
    by (simp add: generation_step_def py_max_def)
  then have "evolve cfg (initial_state cfg [] g) = Inl ValueError"
    by (subst evolve.simps) simp
  then show ?thesis using assms by (simp add: run_genetic_algorithm_def)
qed

text \<open>
  Claim C7, as amended. The program validates nothing and has no \<^verbatim>\<open>ConfigurationError\<close>:
  creating the initial population succeeds for every configuration. With a tournament size
  between 1 and the population size the whole run returns normally, so the loop has no failure
  path then. A tournament size above the population size is not rejected beforehand: with a
  population of at least 10 and a minimum generation count of at least 1 the run raises
  \<^verbatim>\<open>ValueError\<close> from the sampling inside the loop. A population size of 0 raises
  \<^verbatim>\<open>ValueError\<close> from \<^verbatim>\<open>max\<close> of the empty score list inside the loop.
\<close>

theorem configuration_is_not_validated:
  "(\<exists>pop g1. create_population (POPULATION_SIZE cfg) g = Inr (pop, g1) \<and>
      length pop = POPULATION_SIZE cfg \<and> list_all well_formed pop) \<and>
   (1 \<le> TOURNAMENT_SIZE cfg \<and> TOURNAMENT_SIZE cfg \<le> POPULATION_SIZE cfg \<longrightarrow>
      (\<exists>s f. run_genetic_algorithm cfg g = Inr (s, f))) \<and>
   (POPULATION_SIZE cfg < TOURNAMENT_SIZE cfg \<and> 10 \<le> POPULATION_SIZE cfg \<and>
    1 \<le> MIN_GENERATIONS cfg \<longrightarrow> run_genetic_algorithm cfg g = Inl ValueError) \<and>
   (POPULATION_SIZE cfg = 0 \<longrightarrow> run_genetic_algorithm cfg g = Inl ValueError)"
  using create_population_total [of "POPULATION_SIZE cfg" g] run_total [of cfg g]
    run_too_large [of cfg g] run_empty [of cfg g]
  by blast

theorem configuration_is_not_validated_witness:
  "(\<exists>s f. run_genetic_algorithm default_config (\<lambda>n. 0) = Inr (s, f)) \<and>
   run_genetic_algorithm oversized_tournament (\<lambda>n. 0) = Inl ValueError \<and>
   run_genetic_algorithm empty_population (\<lambda>n. 0) = Inl ValueError"
proof -
  have a: "1 \<le> TOURNAMENT_SIZE default_config \<and>
      TOURNAMENT_SIZE default_config \<le> POPULATION_SIZE default_config"
    by (simp add: default_config_def)
  have b: "POPULATION_SIZE oversized_tournament < TOURNAMENT_SIZE oversized_tournament \<and>
      10 \<le> POPULATION_SIZE oversized_tournament \<and> 1 \<le> MIN_GENERATIONS oversized_tournament"
    by (simp add: oversized_tournament_def default_config_def)
  have c: "POPULATION_SIZE empty_population = 0"
    by (simp add: empty_population_def)
  from configuration_is_not_validated [of default_config "\<lambda>n. 0"] a configuration_is_not_validated [of oversized_tournament "\<lambda>n. 0"] b
    configuration_is_not_validated [of empty_population "\<lambda>n. 0"] c
  show ?thesis by blast
qed

section \<open>Elitism keeps the best score\<close>

lemma py_max_InrD:
  assumes "py_max fs = Inr b"
  shows "fs \<noteq> [] \<and> b = Max (set fs)"
proof -
  from assms have ne: "fs \<noteq> []" by (auto simp: py_max_def)
  from py_max_Max [OF ne] assms show ?thesis using ne by simp
qed

lemma generation_step_shape:
  assumes "generation_step cfg st = Inr (st', brk)"
  shows "\<exists>fs. map_err calculate_fitness (population st) = Inr fs \<and> fs \<noteq> [] \<and>
           best_fitness_history st' = best_fitness_history st @ [Max (set fs)] \<and>
           (population st' = population st \<or>
            (\<exists>rate elites g g'.
               map_err (\<lambda>idx. py_index (population st) (int idx))
                 (last_n (POPULATION_SIZE cfg div 10) (argsort fs)) = Inr elites \<and>
               reproduce cfg (population st) fs rate elites g = Inr (population st', g')))"
proof -
  from assms obtain fs b where fs: "map_err calculate_fitness (population st) = Inr fs"
    and b: "py_max fs = Inr b"
    and rest: "bind_err (py_min fs) (\<lambda>worst_fitness.
       (let avg_fitness = np_mean fs;
            st0 = st\<lparr>best_fitness_history := best_fitness_history st @ [b],
                    avg_fitness_history := avg_fitness_history st @ [avg_fitness],
                    worst_fitness_history := worst_fitness_history st @ [worst_fitness],
                    generation_history := generation_history st @ [generation st]\<rparr>;
            improvement = improvement_of (generation st0) avg_fitness (previous_avg_fitness st0)
        in if is_converged cfg (generation st0) improvement then Inr (st0, Some Converged)
           else
             (let rate = adapt_mutation_rate (generation st0) improvement (mutation_rate st0);
                  elite_count = POPULATION_SIZE cfg div 10;
                  elite_indices = last_n elite_count (argsort fs)
              in bind_err (map_err (\<lambda>idx. py_index (population st0) (int idx)) elite_indices)
                   (\<lambda>elites.
                 bind_err (reproduce cfg (population st0) fs rate elites (rng_state st0))
                   (\<lambda>(next_generation, g).
                   (let st1 = st0\<lparr>population := next_generation,
                                 previous_avg_fitness := Some avg_fitness,
                                 generation := generation st0 + 1,
                                 mutation_rate := rate,
                                 rng_state := g\<rparr>
                    in if generation st1 \<ge> 1000 then Inr (st1, Some MaxGenerations)
                       else Inr (st1, None))))))) = Inr (st', brk)"
    unfolding generation_step_def by (elim bind_err_InrE) auto
  from py_max_InrD [OF b] have ne: "fs \<noteq> []" and bm: "b = Max (set fs)" by auto
  from rest have "best_fitness_history st' = best_fitness_history st @ [b] \<and>
           (population st' = population st \<or>
            (\<exists>rate elites g g'.
               map_err (\<lambda>idx. py_index (population st) (int idx))
                 (last_n (POPULATION_SIZE cfg div 10) (argsort fs)) = Inr elites \<and>
               reproduce cfg (population st) fs rate elites g = Inr (population st', g')))"
    unfolding Let_def
    by (auto elim!: bind_err_InrE split: if_splits prod.splits)
  then show ?thesis using fs ne bm by blast
qed

lemma best_survives:
  assumes "generation_step cfg st = Inr (st', brk)"
    and "map_err calculate_fitness (population st) = Inr fs"
  shows "fs \<noteq> [] \<and> best_fitness_history st' = best_fitness_history st @ [Max (set fs)] \<and>
         (\<exists>s \<in> set (population st'). calculate_fitness s = Inr (Max (set fs)))"
proof -
  let ?pop = "population st"
  from generation_step_shape [OF assms(1)] assms(2)
  have ne: "fs \<noteq> []" and h: "best_fitness_history st' = best_fitness_history st @ [Max (set fs)]"
    and p: "population st' = ?pop \<or>
            (\<exists>rate elites g g'.
               map_err (\<lambda>idx. py_index ?pop (int idx))
                 (last_n (POPULATION_SIZE cfg div 10) (argsort fs)) = Inr elites \<and>
               reproduce cfg ?pop fs rate elites g = Inr (population st', g'))"
    by auto
  from map_err_result [OF assms(2)] have len: "length fs = length ?pop"
    and val: "\<forall>i < length ?pop. calculate_fitness (?pop ! i) = Inr (fs ! i)" by auto
  let ?i = "last (argsort fs)"
  from argsort_last_is_best [OF ne] have i: "?i < length fs" "fs ! ?i = Max (set fs)" by auto
  then have best: "calculate_fitness (?pop ! ?i) = Inr (Max (set fs))"
    using val len by auto
  have "?pop ! ?i \<in> set (population st')"
    using p
  proof
    assume "population st' = ?pop"
    then show ?thesis using i(1) len by simp
  next
    assume "\<exists>rate elites g g'.
               map_err (\<lambda>idx. py_index ?pop (int idx))
                 (last_n (POPULATION_SIZE cfg div 10) (argsort fs)) = Inr elites \<and>
               reproduce cfg ?pop fs rate elites g = Inr (population st', g')"
    then obtain rate elites g g' where e: "map_err (\<lambda>idx. py_index ?pop (int idx))
                 (last_n (POPULATION_SIZE cfg div 10) (argsort fs)) = Inr elites"
      and r: "reproduce cfg ?pop fs rate elites g = Inr (population st', g')" by blast
    from elites_total [OF len ne, of "POPULATION_SIZE cfg div 10"] e
    have "?pop ! ?i \<in> set elites" by auto
    moreover from reproduce_prefix [OF r] have "set elites \<subseteq> set (population st')"
      by (rule set_mono_prefix)
    ultimately show ?thesis by auto
  qed
  then show ?thesis using ne h best by auto
qed

lemma generation_step_keeps_history:
  assumes "generation_step cfg st = Inr (st', brk)" and "best_history_ok st"
  shows "best_history_ok st'"
proof -
  let ?pop = "population st"
  from generation_step_shape [OF assms(1)] obtain fs
    where fs: "map_err calculate_fitness ?pop = Inr fs" by blast
  from best_survives [OF assms(1) fs]
  obtain s where ne: "fs \<noteq> []"
    and h: "best_fitness_history st' = best_fitness_history st @ [Max (set fs)]"
    and s: "s \<in> set (population st')" "calculate_fitness s = Inr (Max (set fs))" by blast
  from map_err_result [OF fs] have len: "length fs = length ?pop"
    and val: "\<forall>i < length ?pop. calculate_fitness (?pop ! i) = Inr (fs ! i)" by auto
  have below: "x \<le> Max (set fs)" if "x \<in> set (best_fitness_history st)" for x
  proof -
    from assms(2) that obtain s0 f where s0: "s0 \<in> set ?pop" "calculate_fitness s0 = Inr f" "x \<le> f"
      unfolding best_history_ok_def by blast
    then obtain j where j: "j < length ?pop" "?pop ! j = s0" by (auto simp: in_set_conv_nth)
    then have "f = fs ! j" using val s0(2) by auto
    then have "f \<in> set fs" using j(1) len by simp
    then have "f \<le> Max (set fs)" by simp
    then show ?thesis using s0(3) by simp
  qed
  have "sorted (best_fitness_history st')"
    unfolding h using assms(2) below by (auto simp: sorted_append best_history_ok_def)
  moreover have "\<exists>s \<in> set (population st'). \<exists>f. calculate_fitness s = Inr f \<and> x \<le> f"
    if "x \<in> set (best_fitness_history st')" for x
  proof -
    have "x \<le> Max (set fs)" using that below unfolding h by auto
    then show ?thesis using s by blast
  qed
  ultimately show ?thesis unfolding best_history_ok_def by blast
qed

lemma evolve_keeps_history:
  "evolve cfg st = Inr (st', reason) \<Longrightarrow> best_history_ok st \<Longrightarrow> best_history_ok st'"
proof (induction cfg st rule: evolve.induct)
  case (1 cfg st)
  from "1.prems"(1) obtain st1 brk where s: "generation_step cfg st = Inr (st1, brk)"
    and r: "(case brk of Some reason \<Rightarrow> Inr (st1, reason) | None \<Rightarrow> evolve cfg st1) = Inr (st', reason)"
    by (subst (asm) evolve.simps) (auto elim!: bind_err_InrE)
  note ok = generation_step_keeps_history [OF s "1.prems"(2)]
  show ?case
  proof (cases brk)
    case None
    from r None have "evolve cfg st1 = Inr (st', reason)" by simp
    from "1.IH" [OF s refl None this ok] show ?thesis .
  next
    case (Some reason1)
    then have "st1 = st'" using r by auto
    then show ?thesis using ok by simp
  qed
qed

text \<open>
  Claim C3. In every run of the loop that does not raise, the recorded best fitness per
  generation (the maximum of \<^verbatim>\<open>calculate_fitness\<close> over the population) is ascending; and
  for every single pass of the loop, the maximum over the population after the pass is at
  least the maximum over the population before it, because the chromosome at the last index of
  the argsort is among the elites that are carried over.
\<close>

theorem best_fitness_never_decreases:
  "(evolve cfg (initial_state cfg pop g) = Inr (st', reason) \<longrightarrow>
      sorted (best_fitness_history st')) \<and>
   (generation_step cfg st = Inr (st1, brk) \<and>
    map_err calculate_fitness (population st) = Inr fs \<and>
    map_err calculate_fitness (population st1) = Inr fs1 \<longrightarrow>
      py_max fs = Inr (Max (set fs)) \<and> py_max fs1 = Inr (Max (set fs1)) \<and>
      Max (set fs) \<le> Max (set fs1))"
proof (intro conjI impI)
  assume e: "evolve cfg (initial_state cfg pop g) = Inr (st', reason)"
  have "best_history_ok (initial_state cfg pop g)"
    by (simp add: best_history_ok_def initial_state_def)
  from evolve_keeps_history [OF e this] show "sorted (best_fitness_history st')"
    by (simp add: best_history_ok_def)
next
  assume a: "generation_step cfg st = Inr (st1, brk) \<and>
    map_err calculate_fitness (population st) = Inr fs \<and>
    map_err calculate_fitness (population st1) = Inr fs1"
  from best_survives [of cfg st st1 brk fs] a
  obtain s where ne: "fs \<noteq> []" and s: "s \<in> set (population st1)"
      "calculate_fitness s = Inr (Max (set fs))" by blast
  from map_err_result [of calculate_fitness "population st1" fs1] a
  have len: "length fs1 = length (population st1)"
    and val: "\<forall>i < length (population st1). calculate_fitness (population st1 ! i) = Inr (fs1 ! i)"
    by auto
  from s(1) obtain j where j: "j < length (population st1)" "population st1 ! j = s"
    by (auto simp: in_set_conv_nth)
  then have "fs1 ! j = Max (set fs)" using val s(2) by auto
  then have m: "Max (set fs) \<in> set fs1" using j(1) len by (metis nth_mem)
  then have ne1: "fs1 \<noteq> []" by auto
  show "py_max fs = Inr (Max (set fs))" using ne by (rule py_max_Max)
  show "py_max fs1 = Inr (Max (set fs1))" using ne1 by (rule py_max_Max)
  show "Max (set fs) \<le> Max (set fs1)" using m by simp
qed

theorem best_fitness_never_decreases_witness:
  "\<exists>pop g1 st' reason st1 brk fs fs1.
     create_population (POPULATION_SIZE default_config) (\<lambda>n. 0) = Inr (pop, g1) \<and>
     evolve default_config (initial_state default_config pop g1) = Inr (st', reason) \<and>
     sorted (best_fitness_history st') \<and>
     generation_step default_config (initial_state default_config pop g1) = Inr (st1, brk) \<and>
     map_err calculate_fitness pop = Inr fs \<and>
     map_err calculate_fitness (population st1) = Inr fs1 \<and>
     Max (set fs) \<le> Max (set fs1)"
proof -
  let ?cfg = default_config
  from create_population_total [of "POPULATION_SIZE ?cfg" "\<lambda>n. 0"] obtain pop g1
    where p: "create_population (POPULATION_SIZE ?cfg) (\<lambda>n. 0) = Inr (pop, g1)"
      "length pop = POPULATION_SIZE ?cfg" "list_all well_formed pop" by blast
  have ok: "engine_ok ?cfg (initial_state ?cfg pop g1)"
    using p(2,3) by (intro engine_ok_initial) (simp_all add: default_config_def)
  from evolve_total [OF ok] obtain st' reason
    where e: "evolve ?cfg (initial_state ?cfg pop g1) = Inr (st', reason)" by auto
  from generation_step_total [OF ok] obtain st1 brk
    where s: "generation_step ?cfg (initial_state ?cfg pop g1) = Inr (st1, brk)"
      "engine_ok ?cfg st1" by blast
  from fitness_scores_total [OF p(3)] obtain fs
    where fs: "map_err calculate_fitness pop = Inr fs" by blast
  from s(2) have "list_all well_formed (population st1)" by (simp add: engine_ok_def)
  from fitness_scores_total [OF this] obtain fs1
    where fs1: "map_err calculate_fitness (population st1) = Inr fs1" by blast
  from best_fitness_never_decreases [of ?cfg pop g1 st' reason "initial_state ?cfg pop g1" st1 brk fs fs1] e s(1) fs fs1
  have "sorted (best_fitness_history st')" "Max (set fs) \<le> Max (set fs1)" by simp_all
  then show ?thesis using p(1) e s(1) fs fs1 by blast
qed


end
